theory Spec2Isabelle
  imports Complex_Main
begin

section \<open>Results of a traversal\<close>

text \<open>
  The Python exceptions the modelled code can raise. Every traversal is a recursion over
  a game tree supplied by the game object, so the recursive functions carry fuel: the
  value \<open>None\<close> stands for "the fuel ran out before the call returned",
  \<open>Some (Inl e)\<close> for a raised exception and \<open>Some (Inr x)\<close> for a normal return.
  Numbers are reals: floating-point rounding is outside the model.
\<close>

datatype error = IndexError | ValueError | ZeroDivisionError

type_synonym 'a result = "(error + 'a) option"

definition rbind :: "'a result \<Rightarrow> ('a \<Rightarrow> 'b result) \<Rightarrow> 'b result" where
  "rbind m f = (case m of None \<Rightarrow> None | Some (Inl e) \<Rightarrow> Some (Inl e) | Some (Inr x) \<Rightarrow> f x)"

section \<open>The game and the abstraction function (external collaborators)\<close>

text \<open>
  A game state is the tuple \<open>(player, hands, history, terminal, payoff)\<close>: the
  traversals read \<open>game_state[0]\<close> (the acting player) and \<open>game_state[3]\<close>
  (the terminal flag).
\<close>

record ('c, 'h) game_state =
  gs_player :: nat
  gs_hands :: "'c list list"
  gs_history :: 'h
  gs_terminal :: bool
  gs_payoff :: real

text \<open>
  The methods and attributes of \<open>self.game\<close> that \<open>MCCFR.py\<close> uses. The class is not
  part of the sources, so its methods are parameters. \<open>sample_new_game\<close> draws from the
  random generator, whose state is threaded explicitly; \<open>sample_fixed_game\<close> is
  \<open>sample_new_game(hands=hands)\<close>, which deals the given hands.
\<close>

record ('c, 'h, 'a, 'r) game =
  get_possible_actions :: "('c, 'h) game_state \<Rightarrow> 'a list"
  get_next_game_state :: "('c, 'h) game_state \<Rightarrow> 'a \<Rightarrow> ('c, 'h) game_state"
  get_payoff :: "('c, 'h) game_state \<Rightarrow> real"
  translate_suits :: "('c, 'h) game_state \<Rightarrow> 'c list \<times> 'h"
  sample_new_game :: "'r \<Rightarrow> ('c, 'h) game_state \<times> 'r"
  sample_fixed_game :: "'c list list \<Rightarrow> ('c, 'h) game_state"
  mean :: real
  deck2 :: "'c list"
  handsize :: int

text \<open>
  The \<open>MCCFR\<close> object without its dictionary (the dictionary is the state the functions
  below pass along): the game, the abstraction function, and \<open>random.random\<close> of the
  process-wide generator as a function on the generator's state.
\<close>

record ('c, 'h, 'a, 'ah, 'r) mccfr =
  game :: "('c, 'h, 'a, 'r) game"
  abstraction_function :: "'c list \<Rightarrow> 'h \<Rightarrow> 'a list \<Rightarrow> real \<Rightarrow> 'c list \<times> 'ah"
  random_random :: "'r \<Rightarrow> real \<times> 'r"

section \<open>Information sets\<close>

type_synonym ('c, 'ah) info_key = "nat \<times> 'c set \<times> 'ah \<times> nat"

record infoset =
  cumulative_regrets :: "real list"
  strategy_sum :: "real list"

type_synonym ('c, 'ah) infoset_dict = "('c, 'ah) info_key \<rightharpoonup> infoset"

text \<open>
  Modelled from the spec: the class \<open>Infoset\<close> (module \<open>Infoset.py\<close>) is missing from
  the sources. Both vectors have one entry per action, the action count being the last
  component of the key, and start at zero.
\<close>

definition Infoset_init :: "('c, 'ah) info_key \<Rightarrow> infoset" where
  "Infoset_init info_key =
     \<lparr>cumulative_regrets = replicate (snd (snd (snd info_key))) 0,
      strategy_sum = replicate (snd (snd (snd info_key))) 0\<rparr>"

text \<open>
  Modelled from the spec: the normalisation shared by regret matching and the average
  strategy: divide by the sum when it is positive, else the uniform vector
  \<open>1 / num_actions\<close>.
\<close>

definition normalize :: "real list \<Rightarrow> real list" where
  "normalize v =
     (if sum_list v > 0 then map (\<lambda>x. x / sum_list v) v
      else replicate (length v) (1 / real (length v)))"

text \<open>
  Modelled from the spec: \<open>Infoset.regret_matching\<close>, the positive parts of the
  cumulative regrets, normalised.
\<close>

definition regret_matching :: "infoset \<Rightarrow> real list" where
  "regret_matching i = normalize (map (max 0) (cumulative_regrets i))"

text \<open>
  Modelled from the spec: \<open>Infoset.update_strategy_sum\<close>,
  \<open>strategy_sum[a] += reach_prob * strategy[a]\<close> with the current regret-matching
  strategy.
\<close>

definition update_strategy_sum :: "real \<Rightarrow> infoset \<Rightarrow> infoset" where
  "update_strategy_sum reach_prob i =
     i\<lparr>strategy_sum :=
         map (\<lambda>(s, p). s + reach_prob * p) (zip (strategy_sum i) (regret_matching i))\<rparr>"

text \<open>
  Modelled from the spec: \<open>Infoset.get_average_strategy\<close>, the strategy sums normalised
  the same way.
\<close>

definition get_average_strategy :: "infoset \<Rightarrow> real list" where
  "get_average_strategy i = normalize (strategy_sum i)"

text \<open>
  \<open>get_infoset\<close>: the entry of the dictionary at the key, created first when the key is
  new. The Python returns a reference to the entry; the model returns the entry and the
  dictionary.
\<close>

definition get_infoset ::
  "('c, 'ah) infoset_dict \<Rightarrow> ('c, 'ah) info_key \<Rightarrow> infoset \<times> ('c, 'ah) infoset_dict" where
  "get_infoset d info_key =
     (case d info_key of
        None \<Rightarrow> (Infoset_init info_key, d(info_key \<mapsto> Infoset_init info_key))
      | Some i \<Rightarrow> (i, d))"

definition get_info_key ::
  "('c, 'h, 'a, 'ah, 'r) mccfr \<Rightarrow> ('c, 'h) game_state \<Rightarrow> ('c, 'ah) info_key" where
  "get_info_key M game_state =
     (let possible_action = get_possible_actions (game M) game_state;
          possible_action_len = length possible_action;
          (new_hand, new_hist) = translate_suits (game M) game_state;
          (abs_hand, abs_hist) =
             abstraction_function M new_hand new_hist possible_action (mean (game M))
      in (gs_player game_state, set abs_hand, abs_hist, possible_action_len))"

text \<open>
  \<open>numpy\<close>'s \<open>a.dot(b)\<close> on two vectors: a \<open>ValueError\<close> when the shapes differ.
\<close>

definition dot :: "real list \<Rightarrow> real list \<Rightarrow> error + real" where
  "dot xs ys =
     (if length xs \<noteq> length ys then Inl ValueError
      else Inr (sum_list (map (\<lambda>(x, y). x * y) (zip xs ys))))"

text \<open>
  The loop \<open>infoset.cumulative_regrets[ix] += reach_probs[opponent] *
  (counterfactual_values[ix] - node_value)\<close> over the indices of the possible actions:
  an \<open>IndexError\<close> when the regret vector is shorter than the list of values.
\<close>

definition add_regrets :: "real \<Rightarrow> real list \<Rightarrow> real \<Rightarrow> infoset \<Rightarrow> error + infoset" where
  "add_regrets opp_reach counterfactual_values node_value i =
     (if length (cumulative_regrets i) < length counterfactual_values then Inl IndexError
      else Inr (i\<lparr>cumulative_regrets :=
              map (\<lambda>ix. if ix < length counterfactual_values
                         then cumulative_regrets i ! ix
                              + opp_reach * (counterfactual_values ! ix - node_value)
                         else cumulative_regrets i ! ix)
                  [0..<length (cumulative_regrets i)]\<rparr>))"

section \<open>The shared shape of the recursive traversals\<close>

text \<open>
  The loop \<open>for ix, action in enumerate(possible_actions)\<close> of \<open>chance_cfr\<close> and of the
  updating branch of \<open>external_cfr\<close> (the two loops are the same text). \<open>rec\<close> is the
  recursive call, \<open>s\<close> the state it passes along (the dictionary, with the generator's
  state in \<open>external_cfr\<close>). The variable \<open>payoff\<close> is set to \<open>-1\<close> once before the
  loop and to \<open>1\<close> inside it whenever the acting player stays the same; the loop never
  sets it back, so it is an argument of the loop here. The result is the vector
  \<open>counterfactual_values\<close>.
\<close>

fun cfr_actions ::
  "(('c, 'h) game_state \<Rightarrow> real list \<Rightarrow> 's \<Rightarrow> (real \<times> 's) result) \<Rightarrow>
   ('c, 'h, 'a, 'ah, 'r) mccfr \<Rightarrow> ('c, 'h) game_state \<Rightarrow> real list \<Rightarrow> real list \<Rightarrow>
   'a list \<Rightarrow> nat \<Rightarrow> real \<Rightarrow> 's \<Rightarrow> (real list \<times> 's) result" where
  "cfr_actions rec M game_state reach_probs strategy [] ix payoff s = Some (Inr ([], s))"
| "cfr_actions rec M game_state reach_probs strategy (action # actions) ix payoff s =
     (if length strategy \<le> ix then Some (Inl IndexError)
      else if length reach_probs \<le> gs_player game_state then Some (Inl IndexError)
      else
        (let action_prob = strategy ! ix;
             new_reach_probs =
               reach_probs[gs_player game_state :=
                 reach_probs ! gs_player game_state * action_prob];
             next_game_state = get_next_game_state (game M) game_state action;
             payoff' = (if gs_player game_state = gs_player next_game_state then 1 else payoff)
         in rbind (rec next_game_state new_reach_probs s) (\<lambda>(v, s').
            rbind (cfr_actions rec M game_state reach_probs strategy actions (Suc ix) payoff' s')
              (\<lambda>(values, s''). Some (Inr (payoff' * v # values, s''))))))"

text \<open>
  The end of the updating branch: the node value is the dot product of the
  counterfactual values with the strategy, and the regrets of the node's infoset are
  incremented. \<open>infoset\<close> is a reference to the dictionary's entry at the key; the
  recursive calls before it may have changed that entry (a deeper node with the same key)
  and never remove it, so the entry is read again from the dictionary the loop returned.
  \<open>reach_probs[opponent]\<close> is read in the loop body only.
\<close>

definition update_regrets ::
  "real list \<Rightarrow> nat \<Rightarrow> real list \<Rightarrow> ('c, 'ah) info_key \<Rightarrow> real list \<Rightarrow>
   ('c, 'ah) infoset_dict \<Rightarrow> (real \<times> ('c, 'ah) infoset_dict) result" where
  "update_regrets reach_probs opponent strategy info_key counterfactual_values d =
     (case dot counterfactual_values strategy of
        Inl e \<Rightarrow> Some (Inl e)
      | Inr node_value \<Rightarrow>
          if counterfactual_values \<noteq> [] \<and> length reach_probs \<le> opponent
          then Some (Inl IndexError)
          else
            (case add_regrets (reach_probs ! opponent) counterfactual_values node_value
                    (fst (get_infoset d info_key)) of
               Inl e \<Rightarrow> Some (Inl e)
             | Inr infoset' \<Rightarrow> Some (Inr (node_value, d(info_key \<mapsto> infoset')))))"

section \<open>Chance-sampled CFR\<close>

definition chance_node ::
  "(('c, 'h) game_state \<Rightarrow> real list \<Rightarrow> ('c, 'ah) infoset_dict \<Rightarrow>
      (real \<times> ('c, 'ah) infoset_dict) result) \<Rightarrow>
   ('c, 'h, 'a, 'ah, 'r) mccfr \<Rightarrow> ('c, 'h) game_state \<Rightarrow> real list \<Rightarrow>
   ('c, 'ah) infoset_dict \<Rightarrow> (real \<times> ('c, 'ah) infoset_dict) result" where
  "chance_node rec M game_state reach_probs d =
     (if gs_terminal game_state then Some (Inr (get_payoff (game M) game_state, d))
      else
        (let possible_actions = get_possible_actions (game M) game_state in
         if length possible_actions = 1 then
           (let next_game_state =
                  get_next_game_state (game M) game_state (possible_actions ! 0);
                payoff = (if gs_player game_state = gs_player next_game_state then 1 else - 1)
            in rbind (rec next_game_state reach_probs d)
                 (\<lambda>(v, d'). Some (Inr (payoff * v, d'))))
         else
           (let player = gs_player game_state;
                opponent = (player + 1) mod 2;
                info_key = get_info_key M game_state;
                (infoset, d1) = get_infoset d info_key;
                strategy = regret_matching infoset
            in if length reach_probs \<le> player then Some (Inl IndexError)
               else
                 (let d2 = d1(info_key \<mapsto> update_strategy_sum (reach_probs ! player) infoset)
                  in rbind (cfr_actions rec M game_state reach_probs strategy
                              possible_actions 0 (- 1) d2)
                       (\<lambda>(counterfactual_values, d3).
                          update_regrets reach_probs opponent strategy info_key
                            counterfactual_values d3)))))"

primrec chance_cfr ::
  "nat \<Rightarrow> ('c, 'h, 'a, 'ah, 'r) mccfr \<Rightarrow> ('c, 'h) game_state \<Rightarrow> real list \<Rightarrow>
   ('c, 'ah) infoset_dict \<Rightarrow> (real \<times> ('c, 'ah) infoset_dict) result" where
  "chance_cfr 0 M game_state reach_probs d = None"
| "chance_cfr (Suc fuel) M game_state reach_probs d =
     chance_node (chance_cfr fuel M) M game_state reach_probs d"

section \<open>External-sampled CFR\<close>

text \<open>
  \<open>random.choices(population, weights)[0]\<close> as the standard library computes it: the
  running sums of the weights, a \<open>ValueError\<close> when their number is not the
  population's or their total is not positive, an \<open>IndexError\<close> on an empty population,
  and otherwise the element at \<open>bisect(cum_weights, random() * total, 0, n - 1)\<close>. The
  bisection is written as a scan: on running sums of non-negative weights (which are
  sorted) it is the number of sums among the first \<open>n - 1\<close> that are at most the point.
\<close>

fun accumulate_from :: "real \<Rightarrow> real list \<Rightarrow> real list" where
  "accumulate_from acc [] = []"
| "accumulate_from acc (x # xs) = (acc + x) # accumulate_from (acc + x) xs"

definition accumulate :: "real list \<Rightarrow> real list" where
  "accumulate xs = accumulate_from 0 xs"

definition bisect :: "real list \<Rightarrow> real \<Rightarrow> nat \<Rightarrow> nat" where
  "bisect a x hi = length (takeWhile (\<lambda>c. c \<le> x) (take hi a))"

definition choices ::
  "('r \<Rightarrow> real \<times> 'r) \<Rightarrow> 'a list \<Rightarrow> real list \<Rightarrow> 'r \<Rightarrow> error + ('a \<times> 'r)" where
  "choices rnd population weights r =
     (let n = length population;
          cum_weights = accumulate weights
      in if length cum_weights \<noteq> n then Inl ValueError
         else if cum_weights = [] then Inl IndexError
         else
           (let total = last cum_weights
            in if total \<le> 0 then Inl ValueError
               else (let (u, r') = rnd r
                     in Inr (population ! bisect cum_weights (u * total) (n - 1), r'))))"

text \<open>\<open>list(possible_actions).index(action)\<close>: the first position of the action.\<close>

definition index_of :: "'a list \<Rightarrow> 'a \<Rightarrow> nat" where
  "index_of xs x = length (takeWhile (\<lambda>y. y \<noteq> x) xs)"

definition external_node ::
  "(('c, 'h) game_state \<Rightarrow> real list \<Rightarrow> ('c, 'ah) infoset_dict \<times> 'r \<Rightarrow>
      (real \<times> ('c, 'ah) infoset_dict \<times> 'r) result) \<Rightarrow>
   ('c, 'h, 'a, 'ah, 'r) mccfr \<Rightarrow> ('c, 'h) game_state \<Rightarrow> real list \<Rightarrow> nat \<Rightarrow>
   ('c, 'ah) infoset_dict \<times> 'r \<Rightarrow> (real \<times> ('c, 'ah) infoset_dict \<times> 'r) result" where
  "external_node rec M game_state reach_probs update_player s =
     (if gs_terminal game_state then Some (Inr (get_payoff (game M) game_state, s))
      else
        (let possible_actions = get_possible_actions (game M) game_state in
         if length possible_actions = 1 then
           (let next_game_state =
                  get_next_game_state (game M) game_state (possible_actions ! 0);
                payoff = (if gs_player game_state = gs_player next_game_state then 1 else - 1)
            in rbind (rec next_game_state reach_probs s)
                 (\<lambda>(v, s'). Some (Inr (payoff * v, s'))))
         else
           (let player = gs_player game_state;
                opponent = (player + 1) mod 2;
                info_key = get_info_key M game_state;
                (infoset, d1) = get_infoset (fst s) info_key
            in if player \<noteq> update_player then
                 (let strategy = regret_matching infoset
                  in case choices (random_random M) possible_actions strategy (snd s) of
                       Inl e \<Rightarrow> Some (Inl e)
                     | Inr (action, r1) \<Rightarrow>
                         (let action_index = index_of possible_actions action;
                              action_prob = strategy ! action_index
                          in if length reach_probs \<le> player then Some (Inl IndexError)
                             else
                               (let new_reach_probs =
                                      reach_probs[player := reach_probs ! player * action_prob];
                                    next_game_state =
                                      get_next_game_state (game M) game_state action;
                                    payoff = (if gs_player game_state = gs_player next_game_state
                                              then 1 else - 1)
                                in rbind (rec next_game_state new_reach_probs (d1, r1))
                                     (\<lambda>(v, s'). Some (Inr (payoff * v, s'))))))
               else
                 (let strategy = regret_matching infoset
                  in if length reach_probs \<le> player then Some (Inl IndexError)
                     else
                       (let d2 = d1(info_key \<mapsto>
                                    update_strategy_sum (reach_probs ! player) infoset)
                        in rbind (cfr_actions rec M game_state reach_probs strategy
                                    possible_actions 0 (- 1) (d2, snd s))
                             (\<lambda>(counterfactual_values, (d3, r3)).
                                rbind (update_regrets reach_probs opponent strategy info_key
                                         counterfactual_values d3)
                                  (\<lambda>(node_value, d4). Some (Inr (node_value, (d4, r3))))))))))"

primrec external_cfr ::
  "nat \<Rightarrow> ('c, 'h, 'a, 'ah, 'r) mccfr \<Rightarrow> ('c, 'h) game_state \<Rightarrow> real list \<Rightarrow> nat \<Rightarrow>
   ('c, 'ah) infoset_dict \<times> 'r \<Rightarrow> (real \<times> ('c, 'ah) infoset_dict \<times> 'r) result" where
  "external_cfr 0 M game_state reach_probs update_player s = None"
| "external_cfr (Suc fuel) M game_state reach_probs update_player s =
     external_node (\<lambda>g p. external_cfr fuel M g p update_player)
       M game_state reach_probs update_player s"

section \<open>Training\<close>

text \<open>
  \<open>np.ones(2)\<close> is \<open>[1, 1]\<close>. The iteration count is a Python integer: \<open>range\<close> of a
  negative count is empty, and \<open>util\<close> is still the integer \<open>0\<close> when no iteration ran,
  so the final division raises \<open>ZeroDivisionError\<close> for a count of zero.
\<close>

fun train_chance_loop ::
  "nat \<Rightarrow> ('c, 'h, 'a, 'ah, 'r) mccfr \<Rightarrow> nat \<Rightarrow> real \<Rightarrow> ('c, 'ah) infoset_dict \<times> 'r \<Rightarrow>
   (real \<times> ('c, 'ah) infoset_dict \<times> 'r) result" where
  "train_chance_loop fuel M 0 util s = Some (Inr (util, s))"
| "train_chance_loop fuel M (Suc k) util s =
     (let (game_state, r1) = sample_new_game (game M) (snd s);
          reach_probs = [1, 1]
      in rbind (chance_cfr fuel M game_state reach_probs (fst s))
           (\<lambda>(v, d'). train_chance_loop fuel M k (util + v) (d', r1)))"

definition train_chance ::
  "nat \<Rightarrow> ('c, 'h, 'a, 'ah, 'r) mccfr \<Rightarrow> int \<Rightarrow> ('c, 'ah) infoset_dict \<times> 'r \<Rightarrow>
   (real \<times> ('c, 'ah) infoset_dict \<times> 'r) result" where
  "train_chance fuel M num_iterations s =
     rbind (train_chance_loop fuel M (nat num_iterations) 0 s)
       (\<lambda>(util, s').
          if num_iterations = 0 then Some (Inl ZeroDivisionError)
          else Some (Inr (util / real_of_int num_iterations, s')))"

text \<open>One traversal of \<open>train_external\<close>'s inner loop: a fresh game, then \<open>external_cfr\<close>.\<close>

definition external_traversal ::
  "nat \<Rightarrow> ('c, 'h, 'a, 'ah, 'r) mccfr \<Rightarrow> nat \<Rightarrow> ('c, 'ah) infoset_dict \<times> 'r \<Rightarrow>
   (real \<times> ('c, 'ah) infoset_dict \<times> 'r) result" where
  "external_traversal fuel M i s =
     (let (game_state, r1) = sample_new_game (game M) (snd s);
          reach_probs = [1, 1]
      in external_cfr fuel M game_state reach_probs i (fst s, r1))"

fun train_external_loop ::
  "nat \<Rightarrow> ('c, 'h, 'a, 'ah, 'r) mccfr \<Rightarrow> nat \<Rightarrow> real \<Rightarrow> ('c, 'ah) infoset_dict \<times> 'r \<Rightarrow>
   (real \<times> ('c, 'ah) infoset_dict \<times> 'r) result" where
  "train_external_loop fuel M 0 util s = Some (Inr (util, s))"
| "train_external_loop fuel M (Suc k) util s =
     rbind (external_traversal fuel M 0 s) (\<lambda>(v0, s0).
     rbind (external_traversal fuel M 1 s0) (\<lambda>(v1, s1).
     train_external_loop fuel M k (util + v0 + v1) s1))"

definition train_external ::
  "nat \<Rightarrow> ('c, 'h, 'a, 'ah, 'r) mccfr \<Rightarrow> int \<Rightarrow> ('c, 'ah) infoset_dict \<times> 'r \<Rightarrow>
   (real \<times> ('c, 'ah) infoset_dict \<times> 'r) result" where
  "train_external fuel M num_iterations s =
     rbind (train_external_loop fuel M (nat num_iterations) 0 s)
       (\<lambda>(util, s').
          if num_iterations * 2 = 0 then Some (Inl ZeroDivisionError)
          else Some (Inr (util / real_of_int (num_iterations * 2), s')))"

section \<open>Evaluation\<close>

text \<open>
  The loop of \<open>evaluate_helper\<close>. \<open>reach_prob\<close> is a number, so
  \<open>new_reach_prob *= action_prob\<close> rebinds the local name only.
\<close>

fun evaluate_actions ::
  "(('c, 'h) game_state \<Rightarrow> real \<Rightarrow> ('c, 'ah) infoset_dict \<Rightarrow>
      (real \<times> ('c, 'ah) infoset_dict) result) \<Rightarrow>
   ('c, 'h, 'a, 'ah, 'r) mccfr \<Rightarrow> ('c, 'h) game_state \<Rightarrow> real \<Rightarrow> real list \<Rightarrow>
   'a list \<Rightarrow> nat \<Rightarrow> real \<Rightarrow> ('c, 'ah) infoset_dict \<Rightarrow>
   (real list \<times> ('c, 'ah) infoset_dict) result" where
  "evaluate_actions rec M game_state reach_prob strategy [] ix payoff d = Some (Inr ([], d))"
| "evaluate_actions rec M game_state reach_prob strategy (action # actions) ix payoff d =
     (if length strategy \<le> ix then Some (Inl IndexError)
      else
        (let action_prob = strategy ! ix;
             new_reach_prob = reach_prob * action_prob;
             next_game_state = get_next_game_state (game M) game_state action;
             payoff' = (if gs_player game_state = gs_player next_game_state then 1 else payoff)
         in rbind (rec next_game_state new_reach_prob d) (\<lambda>(v, d').
            rbind (evaluate_actions rec M game_state reach_prob strategy actions (Suc ix)
                     payoff' d')
              (\<lambda>(values, d''). Some (Inr (payoff' * v # values, d''))))))"

definition evaluate_node ::
  "(('c, 'h) game_state \<Rightarrow> real \<Rightarrow> ('c, 'ah) infoset_dict \<Rightarrow>
      (real \<times> ('c, 'ah) infoset_dict) result) \<Rightarrow>
   ('c, 'h, 'a, 'ah, 'r) mccfr \<Rightarrow> ('c, 'h) game_state \<Rightarrow> real \<Rightarrow>
   ('c, 'ah) infoset_dict \<Rightarrow> (real \<times> ('c, 'ah) infoset_dict) result" where
  "evaluate_node rec M game_state reach_prob d =
     (if gs_terminal game_state then Some (Inr (get_payoff (game M) game_state, d))
      else
        (let possible_actions = get_possible_actions (game M) game_state in
         if length possible_actions = 1 then
           (let next_game_state =
                  get_next_game_state (game M) game_state (possible_actions ! 0);
                payoff = (if gs_player game_state = gs_player next_game_state then 1 else - 1)
            in rbind (rec next_game_state reach_prob d)
                 (\<lambda>(v, d'). Some (Inr (payoff * v, d'))))
         else
           (let info_key = get_info_key M game_state;
                (infoset, d1) = get_infoset d info_key;
                strategy = get_average_strategy infoset
            in rbind (evaluate_actions rec M game_state reach_prob strategy
                        possible_actions 0 (- 1) d1)
                 (\<lambda>(partial_values, d2).
                    case dot partial_values strategy of
                      Inl e \<Rightarrow> Some (Inl e)
                    | Inr node_value \<Rightarrow> Some (Inr (node_value, d2))))))"

primrec evaluate_helper ::
  "nat \<Rightarrow> ('c, 'h, 'a, 'ah, 'r) mccfr \<Rightarrow> ('c, 'h) game_state \<Rightarrow> real \<Rightarrow>
   ('c, 'ah) infoset_dict \<Rightarrow> (real \<times> ('c, 'ah) infoset_dict) result" where
  "evaluate_helper 0 M game_state reach_prob d = None"
| "evaluate_helper (Suc fuel) M game_state reach_prob d =
     evaluate_node (evaluate_helper fuel M) M game_state reach_prob d"

text \<open>
  \<open>itertools.combinations(xs, k)\<close>: the sub-sequences of \<open>k\<close> elements, in the order of
  their positions.
\<close>

fun combinations :: "'a list \<Rightarrow> nat \<Rightarrow> 'a list list" where
  "combinations xs 0 = [[]]"
| "combinations [] (Suc k) = []"
| "combinations (x # xs) (Suc k) =
     map ((#) x) (combinations xs k) @ combinations xs (Suc k)"

text \<open>The list of \<open>hands\<close> that the two nested loops of \<open>evaluate\<close> run through.\<close>

definition deals :: "('c::linorder) list \<Rightarrow> nat \<Rightarrow> 'c list list list" where
  "deals deck h =
     concat (map (\<lambda>dealt_cards.
               map (\<lambda>hand1. [sort hand1,
                              sort (filter (\<lambda>card. card \<notin> set hand1) dealt_cards)])
                   (combinations dealt_cards h))
             (combinations deck (h * 2)))"

fun evaluate_deals ::
  "nat \<Rightarrow> ('c, 'h, 'a, 'ah, 'r) mccfr \<Rightarrow> 'c list list list \<Rightarrow> real \<Rightarrow>
   ('c, 'ah) infoset_dict \<Rightarrow> (real \<times> ('c, 'ah) infoset_dict) result" where
  "evaluate_deals fuel M [] util d = Some (Inr (util, d))"
| "evaluate_deals fuel M (hands # rest) util d =
     (let game_state = sample_fixed_game (game M) hands;
          reach_prob = 1
      in rbind (evaluate_helper fuel M game_state reach_prob d)
           (\<lambda>(v, d'). evaluate_deals fuel M rest (util + v) d'))"

text \<open>
  \<open>math.comb\<close> raises \<open>ValueError\<close> on a negative argument; \<open>util\<close> is the integer
  \<open>0\<close> when no deal was enumerated, which is the only case where \<open>hand_prob\<close> is zero.
\<close>

definition evaluate ::
  "nat \<Rightarrow> ('c::linorder, 'h, 'a, 'ah, 'r) mccfr \<Rightarrow> ('c, 'ah) infoset_dict \<Rightarrow>
   (real \<times> ('c, 'ah) infoset_dict) result" where
  "evaluate fuel M d =
     (let n = int (length (deck2 (game M)));
          h = handsize (game M)
      in if h < 0 \<or> n - h < 0 then Some (Inl ValueError)
         else
           (let hand_prob = (nat n choose nat h) * (nat (n - h) choose nat h)
            in rbind (evaluate_deals fuel M (deals (deck2 (game M)) (nat h)) 0 d)
                 (\<lambda>(util, d').
                    if hand_prob = 0 then Some (Inl ZeroDivisionError)
                    else Some (Inr (util / real hand_prob, d')))))"

section \<open>Exploitability\<close>

text \<open>
  The two loops of \<open>get_exploitability\<close>: traversals that all update the same player,
  their values dropped. \<open>deepcopy\<close> of the dictionary is the dictionary's value.
\<close>

fun external_passes ::
  "nat \<Rightarrow> ('c, 'h, 'a, 'ah, 'r) mccfr \<Rightarrow> nat \<Rightarrow> nat \<Rightarrow> ('c, 'ah) infoset_dict \<times> 'r \<Rightarrow>
   (('c, 'ah) infoset_dict \<times> 'r) result" where
  "external_passes fuel M update_player 0 s = Some (Inr s)"
| "external_passes fuel M update_player (Suc k) s =
     rbind (external_traversal fuel M update_player s)
       (\<lambda>(v, s'). external_passes fuel M update_player k s')"

definition get_exploitability ::
  "nat \<Rightarrow> ('c::linorder, 'h, 'a, 'ah, 'r) mccfr \<Rightarrow> int \<Rightarrow> ('c, 'ah) infoset_dict \<times> 'r \<Rightarrow>
   (real \<times> ('c, 'ah) infoset_dict \<times> 'r) result" where
  "get_exploitability fuel M num_iterations s =
     (let info_dict_copy = fst s
      in rbind (external_passes fuel M 0 (nat num_iterations) s) (\<lambda>(d1, r1).
         rbind (evaluate fuel M d1) (\<lambda>(b_1, d1').
         rbind (external_passes fuel M 1 (nat num_iterations) (info_dict_copy, r1)) (\<lambda>(d2, r2).
         rbind (evaluate fuel M d2) (\<lambda>(b_2, d2').
         Some (Inr (b_1 - b_2, (info_dict_copy, r2))))))))"

section \<open>Notions used in the statements\<close>

text \<open>
  The entry a dictionary holds for a key once \<open>get_infoset\<close> has been called on it: the
  stored infoset, or a fresh one.
\<close>

definition entry_of :: "('c, 'ah) infoset_dict \<Rightarrow> ('c, 'ah) info_key \<Rightarrow> infoset" where
  "entry_of d info_key = (case d info_key of None \<Rightarrow> Infoset_init info_key | Some i \<Rightarrow> i)"

text \<open>
  The values the variable \<open>payoff\<close> takes in the loop over the actions, one per action,
  when it holds \<open>payoff\<close> before the loop.
\<close>

fun loop_payoffs ::
  "('c, 'h, 'a, 'ah, 'r) mccfr \<Rightarrow> ('c, 'h) game_state \<Rightarrow> 'a list \<Rightarrow> real \<Rightarrow> real list" where
  "loop_payoffs M game_state [] payoff = []"
| "loop_payoffs M game_state (action # actions) payoff =
     (let payoff' = (if gs_player game_state
                        = gs_player (get_next_game_state (game M) game_state action)
                     then 1 else payoff)
      in payoff' # loop_payoffs M game_state actions payoff')"

text \<open>
  The sign of one transition taken by itself, as the single-action branch computes it.
\<close>

definition transition_sign ::
  "('c, 'h, 'a, 'ah, 'r) mccfr \<Rightarrow> ('c, 'h) game_state \<Rightarrow> 'a \<Rightarrow> real" where
  "transition_sign M game_state action =
     (if gs_player game_state = gs_player (get_next_game_state (game M) game_state action)
      then 1 else - 1)"

text \<open>
  A sequence of calls run one after the other, each from the state the previous one
  returned, stopping at the first that raises or does not return; the values are
  collected.
\<close>

fun run_calls ::
  "('x \<Rightarrow> 's \<Rightarrow> (real \<times> 's) result) \<Rightarrow> 'x list \<Rightarrow> 's \<Rightarrow> (real list \<times> 's) result" where
  "run_calls call [] s = Some (Inr ([], s))"
| "run_calls call (x # xs) s =
     rbind (call x s) (\<lambda>(v, s').
     rbind (run_calls call xs s') (\<lambda>(vs, s''). Some (Inr (v # vs, s''))))"

text \<open>
  The recursive calls of a node that enumerates its actions: for the action at position
  \<open>j\<close>, the next state, and the reach probabilities of the node with the acting
  player's entry multiplied by \<open>strategy[j]\<close>.
\<close>

definition child_calls ::
  "('c, 'h, 'a, 'ah, 'r) mccfr \<Rightarrow> ('c, 'h) game_state \<Rightarrow> real list \<Rightarrow> real list \<Rightarrow>
   nat \<Rightarrow> 'a list \<Rightarrow> (('c, 'h) game_state \<times> real list) list" where
  "child_calls M game_state reach_probs strategy ix actions =
     map (\<lambda>(j, action).
            (get_next_game_state (game M) game_state action,
             reach_probs[gs_player game_state :=
               reach_probs ! gs_player game_state * strategy ! j]))
         (enumerate ix actions)"

text \<open>
  The expected payoff of a state under the average strategies of a fixed dictionary, from
  the perspective of the player to act: the payoff at a terminal state, and otherwise the
  values of the children weighted by the average strategy of the state's infoset, the
  value of a child counted with the sign of its own transition (\<open>1\<close> when the acting
  player stays, \<open>- 1\<close> when it changes). Nothing is stored. The fuel bounds the depth.
\<close>

primrec expected_payoff ::
  "nat \<Rightarrow> ('c, 'h, 'a, 'ah, 'r) mccfr \<Rightarrow> ('c, 'ah) infoset_dict \<Rightarrow> ('c, 'h) game_state \<Rightarrow> real"
  where
  "expected_payoff 0 M d game_state = 0"
| "expected_payoff (Suc fuel) M d game_state =
     (if gs_terminal game_state then get_payoff (game M) game_state
      else
        (let possible_actions = get_possible_actions (game M) game_state in
         if length possible_actions = 1 then
           transition_sign M game_state (possible_actions ! 0)
             * expected_payoff fuel M d
                 (get_next_game_state (game M) game_state (possible_actions ! 0))
         else
           (let strategy = get_average_strategy (entry_of d (get_info_key M game_state));
                partial_values =
                  map (\<lambda>action.
                         transition_sign M game_state action
                           * expected_payoff fuel M d
                               (get_next_game_state (game M) game_state action))
                      possible_actions
            in sum_list (map (\<lambda>(v, action_prob). v * action_prob)
                           (zip partial_values strategy)))))"

text \<open>
  The value the evaluation computes at a state, as a function of a fixed dictionary: the
  same recursion, where the value of a child is counted with the value the variable
  \<open>payoff\<close> has at that point of the loop over the actions (\<open>loop_payoffs\<close>).
  Nothing is stored. The fuel bounds the depth.
\<close>

primrec traversal_value ::
  "nat \<Rightarrow> ('c, 'h, 'a, 'ah, 'r) mccfr \<Rightarrow> ('c, 'ah) infoset_dict \<Rightarrow> ('c, 'h) game_state \<Rightarrow> real"
  where
  "traversal_value 0 M d game_state = 0"
| "traversal_value (Suc fuel) M d game_state =
     (if gs_terminal game_state then get_payoff (game M) game_state
      else
        (let possible_actions = get_possible_actions (game M) game_state in
         if length possible_actions = 1 then
           transition_sign M game_state (possible_actions ! 0)
             * traversal_value fuel M d
                 (get_next_game_state (game M) game_state (possible_actions ! 0))
         else
           (let strategy = get_average_strategy (entry_of d (get_info_key M game_state));
                partial_values =
                  map (\<lambda>(payoff, action).
                         payoff * traversal_value fuel M d
                                    (get_next_game_state (game M) game_state action))
                      (zip (loop_payoffs M game_state possible_actions (- 1)) possible_actions)
            in sum_list (map (\<lambda>(v, action_prob). v * action_prob)
                           (zip partial_values strategy)))))"

text \<open>
  The recursive calls of a node of the evaluation: for the action at position \<open>j\<close>,
  the next state and \<open>reach_prob * strategy[j]\<close>.
\<close>

definition eval_calls ::
  "('c, 'h, 'a, 'ah, 'r) mccfr \<Rightarrow> ('c, 'h) game_state \<Rightarrow> real \<Rightarrow> real list \<Rightarrow>
   nat \<Rightarrow> 'a list \<Rightarrow> (('c, 'h) game_state \<times> real) list" where
  "eval_calls M game_state reach_prob strategy ix actions =
     map (\<lambda>(j, action).
            (get_next_game_state (game M) game_state action, reach_prob * strategy ! j))
         (enumerate ix actions)"

text \<open>What a call returned, without the state: the value, the exception, or nothing.\<close>

definition outcome :: "('v \<times> 's) result \<Rightarrow> 'v result" where
  "outcome r = map_option (map_sum id fst) r"

section \<open>A two-action game for concrete runs\<close>

text \<open>
  Each player holds one card. The first player either shows down at once (action \<open>0\<close>:
  the state is terminal and the same player is still to act, the payoff is \<open>1\<close> for
  the higher card) or passes the move (action \<open>1\<close>: the state is terminal with the
  other player to act, the payoff is \<open>2\<close> for the higher card). Payoffs are from the
  perspective of the player to act in the terminal state.
\<close>

definition kuhn_next ::
  "(nat, nat list) game_state \<Rightarrow> nat \<Rightarrow> (nat, nat list) game_state" where
  "kuhn_next st a =
     (if a = 0
      then st\<lparr>gs_history := [0], gs_terminal := True,
              gs_payoff := (if sum_list (concat (drop 1 (gs_hands st)))
                                 < sum_list (concat (take 1 (gs_hands st)))
                            then 1 else - 1)\<rparr>
      else st\<lparr>gs_player := 1, gs_history := [1], gs_terminal := True,
              gs_payoff := (if sum_list (concat (take 1 (gs_hands st)))
                                 < sum_list (concat (drop 1 (gs_hands st)))
                            then 2 else - 2)\<rparr>)"

definition kuhn_deal :: "nat list list \<Rightarrow> (nat, nat list) game_state" where
  "kuhn_deal hs =
     \<lparr>gs_player = 0, gs_hands = hs, gs_history = [], gs_terminal = False, gs_payoff = 0\<rparr>"

definition kuhn_game :: "(nat, nat list, nat, nat) game" where
  "kuhn_game =
     \<lparr>get_possible_actions = (\<lambda>st. [0, 1]),
      get_next_game_state = kuhn_next,
      get_payoff = gs_payoff,
      translate_suits =
        (\<lambda>st. (concat (take 1 (drop (gs_player st) (gs_hands st))), gs_history st)),
      sample_new_game = (\<lambda>r. (kuhn_deal (if even r then [[1], [0]] else [[0], [1]]), Suc r)),
      sample_fixed_game = kuhn_deal,
      mean = 0,
      deck2 = [0, 1, 2],
      handsize = 1\<rparr>"

definition kuhn :: "(nat, nat list, nat, nat list, nat) mccfr" where
  "kuhn =
     \<lparr>game = kuhn_game,
      abstraction_function = (\<lambda>hand hist acts m. (hand, hist)),
      random_random = (\<lambda>r. (if even r then 1 / 4 else 3 / 4, Suc r))\<rparr>"

text \<open>
  The same game with other stakes for passing the move: \<open>3\<close> for the higher card and
  \<open>- 1\<close> for the lower.
\<close>

definition kuhn2_next ::
  "(nat, nat list) game_state \<Rightarrow> nat \<Rightarrow> (nat, nat list) game_state" where
  "kuhn2_next st a =
     (if a = 0
      then st\<lparr>gs_history := [0], gs_terminal := True,
              gs_payoff := (if sum_list (concat (drop 1 (gs_hands st)))
                                 < sum_list (concat (take 1 (gs_hands st)))
                            then 1 else - 1)\<rparr>
      else st\<lparr>gs_player := 1, gs_history := [1], gs_terminal := True,
              gs_payoff := (if sum_list (concat (take 1 (gs_hands st)))
                                 < sum_list (concat (drop 1 (gs_hands st)))
                            then 3 else - 1)\<rparr>)"

definition kuhn2 :: "(nat, nat list, nat, nat list, nat) mccfr" where
  "kuhn2 = kuhn\<lparr>game := kuhn_game\<lparr>get_next_game_state := kuhn2_next\<rparr>\<rparr>"

text \<open>
  A game in which both players choose. The first player shows down (action \<open>0\<close>, for a
  stake of \<open>1\<close>) or raises (action \<open>1\<close>); after a raise the second player folds
  (action \<open>0\<close>, losing \<open>1\<close>) or calls (action \<open>1\<close>, for a stake of \<open>2\<close>).
  Every transition passes the move to the other player, and a terminal payoff is from the
  perspective of the player to act in the terminal state.
\<close>

definition duel_next ::
  "(nat, nat list) game_state \<Rightarrow> nat \<Rightarrow> (nat, nat list) game_state" where
  "duel_next st a =
     (if gs_history st = [] then
        (if a = 0
         then st\<lparr>gs_player := 1, gs_history := [0], gs_terminal := True,
                 gs_payoff := (if sum_list (concat (take 1 (gs_hands st)))
                                    < sum_list (concat (drop 1 (gs_hands st)))
                               then 1 else - 1)\<rparr>
         else st\<lparr>gs_player := 1, gs_history := [1]\<rparr>)
      else
        (if a = 0
         then st\<lparr>gs_player := 0, gs_history := [1, 0], gs_terminal := True, gs_payoff := 1\<rparr>
         else st\<lparr>gs_player := 0, gs_history := [1, 1], gs_terminal := True,
                 gs_payoff := (if sum_list (concat (drop 1 (gs_hands st)))
                                    < sum_list (concat (take 1 (gs_hands st)))
                               then 2 else - 2)\<rparr>))"

definition duel :: "(nat, nat list, nat, nat list, nat) mccfr" where
  "duel = kuhn\<lparr>game := kuhn_game\<lparr>get_next_game_state := duel_next\<rparr>\<rparr>"

lemmas kuhn_defs = kuhn_def kuhn_game_def kuhn_deal_def kuhn_next_def

lemmas kuhn2_defs = kuhn2_def kuhn2_next_def kuhn_def kuhn_game_def kuhn_deal_def

lemmas duel_defs = duel_def duel_next_def kuhn_def kuhn_game_def kuhn_deal_def

lemmas model_defs =
  evaluate_node_def chance_node_def external_node_def get_info_key_def get_infoset_def
  Infoset_init_def get_average_strategy_def regret_matching_def normalize_def dot_def
  rbind_def update_regrets_def add_regrets_def update_strategy_sum_def choices_def
  accumulate_def bisect_def index_of_def external_traversal_def

section \<open>Regret matching\<close>

lemma sum_list_normalize:
  assumes "v \<noteq> []"
  shows "sum_list (normalize v) = 1"
proof (cases "sum_list v > 0")
  case True
  have "sum_list (map (\<lambda>x. x / sum_list v) v) = sum_list v / sum_list v"
  proof -
    have "\<And>c. sum_list (map (\<lambda>x. x / c) v) = sum_list v / c"
      by (induction v) (simp_all add: add_divide_distrib)
    thus ?thesis .
  qed
  with True show ?thesis by (simp add: normalize_def)
next
  case False
  with assms show ?thesis by (simp add: normalize_def sum_list_replicate)
qed

lemma normalize_nonneg:
  assumes "\<forall>x \<in> set v. 0 \<le> x" "p \<in> set (normalize v)"
  shows "0 \<le> p"
  using assms by (auto simp: normalize_def split: if_splits)

lemma length_normalize: "length (normalize v) = length v"
  by (simp add: normalize_def)

lemma normalize_nth:
  "a < length v \<Longrightarrow> normalize v ! a = (if sum_list v > 0 then v ! a / sum_list v else 1 / real (length v))"
  by (simp add: normalize_def)

text \<open>
  C9. Regret matching returns a probability vector for every regret vector with at least
  one entry, whatever the signs of the entries: one entry per action, every entry
  non-negative, the entries summing to one; each entry is the positive part of the regret
  divided by the sum of the positive parts when that sum is positive, and
  \<open>1 / num_actions\<close> otherwise. (A non-terminal state has at least one action, so an
  infoset has at least one entry.)
\<close>

theorem regret_matching_probability:
  assumes "cumulative_regrets i \<noteq> []"
  shows "length (regret_matching i) = length (cumulative_regrets i)
       \<and> (\<forall>p \<in> set (regret_matching i). 0 \<le> p)
       \<and> sum_list (regret_matching i) = 1
       \<and> (\<forall>a < length (cumulative_regrets i).
            regret_matching i ! a =
              (if sum_list (map (max 0) (cumulative_regrets i)) > 0
               then max (cumulative_regrets i ! a) 0 / sum_list (map (max 0) (cumulative_regrets i))
               else 1 / real (length (cumulative_regrets i))))"
proof -
  let ?v = "map (max 0) (cumulative_regrets i)"
  have ne: "?v \<noteq> []" using assms by simp
  have pos: "\<forall>x \<in> set ?v. 0 \<le> x" by auto
  have 1: "length (regret_matching i) = length (cumulative_regrets i)"
    by (simp add: regret_matching_def length_normalize)
  have 2: "\<forall>p \<in> set (regret_matching i). 0 \<le> p"
    using normalize_nonneg[OF pos] by (simp add: regret_matching_def)
  have 3: "sum_list (regret_matching i) = 1"
    using sum_list_normalize[OF ne] by (simp add: regret_matching_def)
  have 4: "\<forall>a < length (cumulative_regrets i).
            regret_matching i ! a =
              (if sum_list ?v > 0
               then max (cumulative_regrets i ! a) 0 / sum_list ?v
               else 1 / real (length (cumulative_regrets i)))"
    by (simp add: regret_matching_def normalize_nth max.commute)
  from 1 2 3 4 show ?thesis by blast
qed

theorem regret_matching_probability_witness:
  "regret_matching \<lparr>cumulative_regrets = [0, 0], strategy_sum = [0, 0]\<rparr> = [1/2, 1/2]
   \<and> regret_matching \<lparr>cumulative_regrets = [-1, -2], strategy_sum = [0, 0]\<rparr> = [1/2, 1/2]
   \<and> regret_matching \<lparr>cumulative_regrets = [3, -1, 1], strategy_sum = [0, 0, 0]\<rparr> = [3/4, 0, 1/4]
   \<and> sum_list (regret_matching \<lparr>cumulative_regrets = [3, -1, 1], strategy_sum = [0, 0, 0]\<rparr>) = 1"
  using regret_matching_probability[of "\<lparr>cumulative_regrets = [3, -1, 1], strategy_sum = [0, 0, 0]\<rparr>"]
  by (simp add: regret_matching_def normalize_def)

section \<open>The reach probability of the evaluation\<close>

lemma evaluate_actions_reach:
  assumes "\<And>g r r' d. rec g r d = rec g r' d"
  shows "evaluate_actions rec M st r1 strategy acts ix p d
       = evaluate_actions rec M st r2 strategy acts ix p d"
proof (induction acts arbitrary: ix p d)
  case Nil
  show ?case by simp
next
  case (Cons a acts)
  show ?case
    by (simp add: Let_def assms[where r="r1 * strategy ! ix" and r'="r2 * strategy ! ix"] Cons.IH cong: if_cong)
qed

lemma evaluate_node_reach:
  assumes "\<And>g r r' d. rec g r d = rec g r' d"
  shows "evaluate_node rec M st r1 d = evaluate_node rec M st r2 d"
  unfolding evaluate_node_def Let_def
  by (simp add: assms[where r=r1 and r'=r2] evaluate_actions_reach[OF assms, where ?r1.0=r1 and ?r2.0=r2] split: prod.splits)

text \<open>
  C10. What \<open>evaluate_helper\<close> returns (the value, the dictionary, an exception, or
  nothing within the fuel) does not depend on its \<open>reach_prob\<close> argument.
\<close>

theorem evaluate_helper_reach_independent:
  "evaluate_helper fuel M game_state r1 d = evaluate_helper fuel M game_state r2 d"
proof (induction fuel arbitrary: game_state r1 r2 d)
  case 0
  show ?case by simp
next
  case (Suc fuel)
  show ?case by (simp add: evaluate_node_reach[OF Suc.IH])
qed

section \<open>The sign of a child's value\<close>

lemma kuhn_signs: "map (transition_sign kuhn (kuhn_deal [[1], [0]])) [0, 1] = [1, - 1]"
  by (simp add: transition_sign_def kuhn_defs)

lemma kuhn_loop_payoffs: "loop_payoffs kuhn (kuhn_deal [[1], [0]]) [0, 1] (- 1) = [1, 1]"
  by (simp add: kuhn_defs)

lemma kuhn_children:
  "outcome (evaluate_helper 1 kuhn (kuhn_next (kuhn_deal [[1], [0]]) 0) (1 / 2) Map.empty) = Some (Inr 1)"
  "outcome (evaluate_helper 1 kuhn (kuhn_next (kuhn_deal [[1], [0]]) 1) (1 / 2) Map.empty) = Some (Inr (- 2))"
  by (simp_all add: outcome_def model_defs kuhn_defs)

lemma kuhn_evaluate_root:
  "outcome (evaluate_helper 2 kuhn (kuhn_deal [[1], [0]]) 1 Map.empty) = Some (Inr (- 1 / 2))"
  by (simp add: outcome_def numeral_2_eq_2 model_defs kuhn_defs Let_def)

lemma kuhn_chance_root:
  "outcome (chance_cfr 2 kuhn (kuhn_deal [[1], [0]]) [1, 1] Map.empty) = Some (Inr (- 1 / 2))"
  by (simp add: outcome_def numeral_2_eq_2 model_defs kuhn_defs Let_def)

lemma kuhn_external_root:
  "outcome (external_cfr 2 kuhn (kuhn_deal [[1], [0]]) [1, 1] 0 (Map.empty, 0)) = Some (Inr (- 1 / 2))"
  by (simp add: outcome_def numeral_2_eq_2 model_defs kuhn_defs Let_def)

text \<open>
  Once an action of the loop keeps the acting player, \<open>payoff\<close> is \<open>1\<close> for that
  action and for every action after it, whatever their transitions.
\<close>

lemma loop_payoffs_from_one:
  "loop_payoffs M game_state actions 1 = replicate (length actions) 1"
  by (induction actions) (simp_all add: Let_def)

lemma loop_payoffs_stays_one:
  assumes "gs_player game_state = gs_player (get_next_game_state (game M) game_state action)"
  shows "loop_payoffs M game_state (action # actions) payoff
           = replicate (Suc (length actions)) 1"
  using assms by (simp add: Let_def loop_payoffs_from_one)

text \<open>
  C1. The sign given to a child's value is meant to depend on that action's transition
  alone: \<open>1\<close> when the acting player stays, \<open>- 1\<close> when it changes. In the loops
  over the actions the variable \<open>payoff\<close> is not set back to \<open>- 1\<close>, so an action
  that changes the player gets the sign \<open>1\<close> once an earlier action of the same node
  kept the player. At the root of the two-action game with hands \<open>[[1], [0]]\<close> the
  transitions have signs \<open>[1, - 1]\<close>, the loops apply \<open>[1, 1]\<close>, the children are
  worth \<open>1\<close> and \<open>- 2\<close>, and all three traversals return
  \<open>1/2 * 1 + 1/2 * (- 2) = - 1/2\<close> under the uniform strategy, where the signs of
  the transitions give \<open>1/2 * 1 - 1/2 * (- 2) = 3/2\<close>.
\<close>

theorem payoff_sign_not_reset:
  "map (transition_sign kuhn (kuhn_deal [[1], [0]])) [0, 1] = [1, - 1]
   \<and> loop_payoffs kuhn (kuhn_deal [[1], [0]]) [0, 1] (- 1) = [1, 1]
   \<and> outcome (evaluate_helper 1 kuhn (kuhn_next (kuhn_deal [[1], [0]]) 0) (1 / 2) Map.empty) = Some (Inr 1)
   \<and> outcome (evaluate_helper 1 kuhn (kuhn_next (kuhn_deal [[1], [0]]) 1) (1 / 2) Map.empty) = Some (Inr (- 2))
   \<and> outcome (evaluate_helper 2 kuhn (kuhn_deal [[1], [0]]) 1 Map.empty) = Some (Inr (- 1 / 2))
   \<and> outcome (chance_cfr 2 kuhn (kuhn_deal [[1], [0]]) [1, 1] Map.empty) = Some (Inr (- 1 / 2))
   \<and> outcome (external_cfr 2 kuhn (kuhn_deal [[1], [0]]) [1, 1] 0 (Map.empty, 0)) = Some (Inr (- 1 / 2))"
  using kuhn_signs kuhn_loop_payoffs kuhn_children kuhn_evaluate_root kuhn_chance_root kuhn_external_root
  by blast

section \<open>Sequences of calls\<close>

lemma rbind_simps [simp]:
  "rbind None f = None"
  "rbind (Some (Inl e)) f = Some (Inl e)"
  "rbind (Some (Inr x)) f = f x"
  by (simp_all add: rbind_def)

lemma rbind_assoc: "rbind (rbind m f) g = rbind m (\<lambda>x. rbind (f x) g)"
  by (simp add: rbind_def split: option.splits sum.splits)

lemma rbind_cases:
  obtains "m = None" | e where "m = Some (Inl e)" | x where "m = Some (Inr x)"
proof (cases m)
  case None
  thus ?thesis using that by simp
next
  case (Some a)
  thus ?thesis using that by (cases a) auto
qed

lemma rbind_eq_Inr:
  "rbind m f = Some (Inr y) \<longleftrightarrow> (\<exists>x. m = Some (Inr x) \<and> f x = Some (Inr y))"
  by (cases m rule: rbind_cases) auto

lemma run_calls_length:
  "run_calls call xs s = Some (Inr (vs, s')) \<Longrightarrow> length vs = length xs"
  by (induction xs arbitrary: s vs s') (auto simp: rbind_eq_Inr)

lemma run_calls_append:
  "run_calls call (xs @ ys) s =
     rbind (run_calls call xs s) (\<lambda>(vs, s').
     rbind (run_calls call ys s') (\<lambda>(ws, s''). Some (Inr (vs @ ws, s''))))"
proof (induction xs arbitrary: s)
  case Nil
  show ?case
    by (cases "run_calls call ys s" rule: rbind_cases) auto
next
  case (Cons x xs)
  show ?case
  proof (cases "call x s" rule: rbind_cases)
    case (3 r)
    obtain v s1 where r: "r = (v, s1)" by (cases r)
    show ?thesis
    proof (cases "run_calls call xs s1" rule: rbind_cases)
      case (3 q)
      obtain vs s2 where q: "q = (vs, s2)" by (cases q)
      show ?thesis
        by (cases "run_calls call ys s2" rule: rbind_cases)
           (auto simp: \<open>call x s = Some (Inr r)\<close> r Cons.IH 3 q)
    qed (auto simp: \<open>call x s = Some (Inr r)\<close> r Cons.IH)
  qed auto
qed

lemma train_external_loop_run_calls:
  "train_external_loop fuel M k util s =
     rbind (run_calls (external_traversal fuel M) (concat (replicate k [0, 1])) s)
       (\<lambda>(vs, s'). Some (Inr (util + sum_list vs, s')))"
proof (induction k arbitrary: util s)
  case 0
  show ?case by simp
next
  case (Suc k)
  show ?case
    by (simp add: Suc.IH rbind_def add.assoc split: option.split sum.split prod.split)
qed

text \<open>
  C5 (amended). For every \<open>num_iterations\<close> of at least one, \<open>train_external\<close>
  runs \<open>2 * num_iterations\<close> traversals one after the other, with update players
  \<open>0, 1, 0, 1, \<dots>\<close>, each on a freshly sampled game with reach probabilities
  \<open>[1, 1]\<close>, and returns the sum of their root values divided by
  \<open>2 * num_iterations\<close> (or stops with the first traversal that raises or does not
  return).
\<close>

theorem train_external_traversals:
  assumes "0 < num_iterations"
  shows "train_external fuel M num_iterations s =
           rbind (run_calls
                    (\<lambda>i s. external_cfr fuel M (fst (sample_new_game (game M) (snd s))) [1, 1] i
                              (fst s, snd (sample_new_game (game M) (snd s))))
                    (concat (replicate (nat num_iterations) [0, 1])) s)
             (\<lambda>(vs, s'). Some (Inr (sum_list vs / real_of_int (2 * num_iterations), s')))
         \<and> int (length (concat (replicate (nat num_iterations) [0, 1 :: nat]))) = 2 * num_iterations"
proof -
  have ext: "external_traversal fuel M =
          (\<lambda>i s. external_cfr fuel M (fst (sample_new_game (game M) (snd s))) [1, 1] i
                    (fst s, snd (sample_new_game (game M) (snd s))))"
    by (intro ext) (simp add: external_traversal_def split: prod.splits)
  have len: "int (length (concat (replicate (nat num_iterations) [0, 1 :: nat]))) = 2 * num_iterations"
    using assms by (simp add: length_concat sum_list_replicate)
  have "train_external fuel M num_iterations s =
           rbind (run_calls (external_traversal fuel M)
                    (concat (replicate (nat num_iterations) [0, 1])) s)
             (\<lambda>(vs, s'). Some (Inr (sum_list vs / real_of_int (2 * num_iterations), s')))"
    using assms
    by (cases "run_calls (external_traversal fuel M)
                    (concat (replicate (nat num_iterations) [0, 1])) s" rule: rbind_cases)
       (auto simp: train_external_def train_external_loop_run_calls mult.commute)
  with ext len show ?thesis by simp
qed

lemma fuel_2:
  "chance_cfr 2 = chance_cfr (Suc (Suc 0))"
  "external_cfr 2 = external_cfr (Suc (Suc 0))"
  "evaluate_helper 2 = evaluate_helper (Suc (Suc 0))"
  by (simp_all add: numeral_2_eq_2)

theorem train_external_traversals_witness:
  "(0 :: int) < 1 \<and> outcome (train_external 2 kuhn 1 (Map.empty, 0)) = Some (Inr (- 3 / 4))"
proof -
  have pos: "(0 :: int) < 1" by simp
  note eq = conjunct1 [OF train_external_traversals [OF pos, where fuel = 2 and M = kuhn
                and s = "(Map.empty, 0)"]]
  show ?thesis
    unfolding eq
    by (simp add: outcome_def fuel_2 model_defs kuhn_defs Let_def)
qed

text \<open>
  C5, as stated, fails for \<open>num_iterations = 0\<close>: no traversal runs, \<open>util\<close> is
  still the integer \<open>0\<close>, and the division \<open>util / (num_iterations * 2)\<close> raises
  \<open>ZeroDivisionError\<close> instead of returning a value.
\<close>

theorem train_external_zero_iterations:
  "train_external 2 kuhn 0 (Map.empty, 0) = Some (Inl ZeroDivisionError)"
  by (simp add: train_external_def)

section \<open>Exploitability\<close>

lemma external_passes_run_calls:
  "external_passes fuel M update_player k s =
     rbind (run_calls (external_traversal fuel M) (replicate k update_player) s)
       (\<lambda>(vs, s'). Some (Inr s'))"
proof (induction k arbitrary: s)
  case 0
  show ?case by simp
next
  case (Suc k)
  show ?case
    by (simp add: Suc.IH rbind_def split: option.split sum.split prod.split)
qed

lemma external_traversal_unfold:
  "external_traversal fuel M =
     (\<lambda>i s. external_cfr fuel M (fst (sample_new_game (game M) (snd s))) [1, 1] i
               (fst s, snd (sample_new_game (game M) (snd s))))"
  by (intro ext) (simp add: external_traversal_def split: prod.splits)

lemma get_exploitability_frame:
  "(case get_exploitability fuel M num_iterations (d, r) of
      Some (Inr (x, (d', r'))) \<Rightarrow> d' = d
    | _ \<Rightarrow> True)"
  by (simp add: get_exploitability_def rbind_def split: option.split sum.split prod.split)

text \<open>
  C7. \<open>get_exploitability\<close> runs \<open>num_iterations\<close> external-sampled traversals
  with update player \<open>0\<close> from the dictionary it was called with, evaluates the result
  to \<open>b1\<close>, runs \<open>num_iterations\<close> traversals with update player \<open>1\<close> from the
  same dictionary again (the generator's state goes on from the first pass), evaluates to
  \<open>b2\<close>, and returns \<open>b1 - b2\<close>; whenever it returns, the dictionary is the one
  it was called with.
\<close>

theorem get_exploitability_snapshot:
  "get_exploitability fuel M num_iterations (d, r) =
     rbind (run_calls
              (\<lambda>i s. external_cfr fuel M (fst (sample_new_game (game M) (snd s))) [1, 1] i
                        (fst s, snd (sample_new_game (game M) (snd s))))
              (replicate (nat num_iterations) 0) (d, r)) (\<lambda>(vs1, (d1, r1)).
     rbind (evaluate fuel M d1) (\<lambda>(b1, e1).
     rbind (run_calls
              (\<lambda>i s. external_cfr fuel M (fst (sample_new_game (game M) (snd s))) [1, 1] i
                        (fst s, snd (sample_new_game (game M) (snd s))))
              (replicate (nat num_iterations) 1) (d, r1)) (\<lambda>(vs2, (d2, r2)).
     rbind (evaluate fuel M d2) (\<lambda>(b2, e2).
     Some (Inr (b1 - b2, (d, r2)))))))
   \<and> (case get_exploitability fuel M num_iterations (d, r) of
         Some (Inr (x, (d', r'))) \<Rightarrow> d' = d
       | _ \<Rightarrow> True)"
proof -
  have "get_exploitability fuel M num_iterations (d, r) =
     rbind (run_calls (external_traversal fuel M) (replicate (nat num_iterations) 0) (d, r))
       (\<lambda>(vs1, (d1, r1)).
     rbind (evaluate fuel M d1) (\<lambda>(b1, e1).
     rbind (run_calls (external_traversal fuel M) (replicate (nat num_iterations) 1) (d, r1))
       (\<lambda>(vs2, (d2, r2)).
     rbind (evaluate fuel M d2) (\<lambda>(b2, e2).
     Some (Inr (b1 - b2, (d, r2)))))))"
    by (simp add: get_exploitability_def external_passes_run_calls rbind_def
             split: option.split sum.split prod.split)
  thus ?thesis
    using get_exploitability_frame[where fuel = fuel and M = M and num_iterations = num_iterations and d = d and r = r]
    by (simp only: external_traversal_unfold simp_thms)
qed

section \<open>Sampling an action\<close>

lemma fst_get_infoset: "fst (get_infoset d k) = entry_of d k"
  by (simp add: get_infoset_def entry_of_def split: option.split)

lemma entry_of_get_infoset: "entry_of (snd (get_infoset d k)) = entry_of d"
  by (rule ext) (simp add: get_infoset_def entry_of_def split: option.split)

lemma dom_get_infoset: "dom (snd (get_infoset d k)) = insert k (dom d)"
  by (auto simp: get_infoset_def split: option.splits)

lemma get_infoset_other: "k' \<noteq> k \<Longrightarrow> snd (get_infoset d k) k' = d k'"
  by (simp add: get_infoset_def split: option.split)

lemma get_infoset_at: "snd (get_infoset d k) k = Some (entry_of d k)"
  by (simp add: get_infoset_def entry_of_def split: option.split)

lemma accumulate_from_length: "length (accumulate_from acc ws) = length ws"
  by (induction ws arbitrary: acc) simp_all

lemma accumulate_from_nth:
  "k < length ws \<Longrightarrow> accumulate_from acc ws ! k = acc + sum_list (take (Suc k) ws)"
proof (induction ws arbitrary: acc k)
  case Nil
  thus ?case by simp
next
  case (Cons w ws)
  show ?case
  proof (cases k)
    case 0
    thus ?thesis by simp
  next
    case (Suc k')
    with Cons.prems have "k' < length ws" by simp
    from Cons.IH[OF this, of "acc + w"] Suc show ?thesis by simp
  qed
qed

lemma length_accumulate: "length (accumulate ws) = length ws"
  by (simp add: accumulate_def accumulate_from_length)

lemma accumulate_nth: "k < length ws \<Longrightarrow> accumulate ws ! k = sum_list (take (Suc k) ws)"
  by (simp add: accumulate_def accumulate_from_nth)

lemma last_accumulate: "ws \<noteq> [] \<Longrightarrow> last (accumulate ws) = sum_list ws"
proof -
  assume ne: "ws \<noteq> []"
  hence "accumulate ws \<noteq> []" using length_accumulate[of ws] by (metis length_0_conv)
  hence "last (accumulate ws) = accumulate ws ! (length ws - 1)"
    by (simp add: last_conv_nth length_accumulate)
  also have "\<dots> = sum_list (take (Suc (length ws - 1)) ws)"
    using ne by (intro accumulate_nth) simp
  also have "\<dots> = sum_list ws" using ne by simp
  finally show ?thesis .
qed

lemma bisect_le: "bisect a x hi \<le> hi"
  unfolding bisect_def
  by (rule order_trans[OF length_takeWhile_le]) simp

lemma bisect_below:
  assumes "i < bisect a x hi"
  shows "a ! i \<le> x"
proof -
  let ?t = "takeWhile (\<lambda>c. c \<le> x) (take hi a)"
  have i: "i < length ?t" using assms by (simp add: bisect_def)
  hence "?t ! i \<in> set ?t" by simp
  hence "?t ! i \<le> x" by (rule set_takeWhileD[THEN conjunct2])
  moreover have "?t ! i = take hi a ! i" using i by (rule takeWhile_nth)
  moreover have "i < hi" using assms bisect_le[of a x hi] by simp
  ultimately show ?thesis by simp
qed

lemma bisect_above:
  assumes "bisect a x hi < hi" "hi \<le> length a"
  shows "x < a ! bisect a x hi"
proof -
  let ?j = "bisect a x hi"
  have "?j < length (take hi a)" using assms by simp
  hence "\<not> (take hi a ! ?j \<le> x)"
    unfolding bisect_def by (rule nth_length_takeWhile)
  thus ?thesis using assms by simp
qed

lemma choices_inverse_cdf:
  assumes len: "length weights = length population" and ne: "population \<noteq> []"
    and total: "sum_list weights = 1"
    and u: "0 \<le> fst (rnd r)" "fst (rnd r) < 1"
  shows "\<exists>j < length population.
           choices rnd population weights r = Inr (population ! j, snd (rnd r))
         \<and> sum_list (take j weights) \<le> fst (rnd r)
         \<and> fst (rnd r) < sum_list (take (Suc j) weights)"
proof -
  let ?n = "length population"
  let ?cum = "accumulate weights"
  let ?u = "fst (rnd r)"
  let ?j = "bisect ?cum ?u (?n - 1)"
  have wne: "weights \<noteq> []" using len ne by auto
  have cne: "?cum \<noteq> []" using wne length_accumulate[of weights] by (metis length_0_conv)
  have last: "last ?cum = 1" using last_accumulate[OF wne] total by simp
  have "0 < ?n" using ne by simp
  with bisect_le[of ?cum ?u "?n - 1"] have jn: "?j < ?n" by linarith
  have ch: "choices rnd population weights r = Inr (population ! ?j, snd (rnd r))"
    using len cne last by (simp add: choices_def length_accumulate split: prod.split)
  have lo: "sum_list (take ?j weights) \<le> ?u"
  proof (cases ?j)
    case 0
    thus ?thesis using u by simp
  next
    case (Suc i)
    hence "i < ?j" by simp
    hence "?cum ! i \<le> ?u" by (rule bisect_below)
    moreover have "i < length weights" using Suc jn len by simp
    ultimately show ?thesis using Suc by (simp add: accumulate_nth)
  qed
  have hi: "?u < sum_list (take (Suc ?j) weights)"
  proof (cases "?j < ?n - 1")
    case True
    hence "?u < ?cum ! ?j"
      by (intro bisect_above) (simp_all add: length_accumulate len)
    thus ?thesis using jn len by (simp add: accumulate_nth)
  next
    case False
    hence "?j = ?n - 1" using bisect_le[of ?cum ?u "?n - 1"] by simp
    hence "take (Suc ?j) weights = weights" using len ne by simp
    thus ?thesis using total u by simp
  qed
  from jn ch lo hi show ?thesis by blast
qed

section \<open>The sampled branch of external-sampled CFR\<close>

lemma external_cfr_sampled_unfold:
  assumes "\<not> gs_terminal game_state"
    and "length (get_possible_actions (game M) game_state) \<noteq> 1"
    and "gs_player game_state \<noteq> update_player"
    and "gs_player game_state < length reach_probs"
  shows "external_cfr (Suc fuel) M game_state reach_probs update_player (d, r) =
     (case choices (random_random M) (get_possible_actions (game M) game_state)
             (regret_matching (entry_of d (get_info_key M game_state))) r of
        Inl e \<Rightarrow> Some (Inl e)
      | Inr (action, r1) \<Rightarrow>
          rbind (external_cfr fuel M (get_next_game_state (game M) game_state action)
                   (reach_probs[gs_player game_state :=
                      reach_probs ! gs_player game_state
                        * regret_matching (entry_of d (get_info_key M game_state))
                            ! index_of (get_possible_actions (game M) game_state) action])
                   update_player (snd (get_infoset d (get_info_key M game_state)), r1))
            (\<lambda>(v, s'). Some (Inr (transition_sign M game_state action * v, s'))))"
  using assms
  by (simp add: external_node_def Let_def split_beta fst_get_infoset transition_sign_def
           split: sum.split)

text \<open>
  The sampled branch as one equation: one draw with \<open>random.choices\<close> from the
  regret-matching strategy of the node's infoset and one recursive call, on the drawn
  action's next state; the dictionary passed on holds the same entries as before; and the
  draw picks the position whose cumulative interval contains the number the generator
  returned.
\<close>

lemma external_cfr_sampled_node:
  assumes "\<not> gs_terminal game_state"
    and "2 \<le> length (get_possible_actions (game M) game_state)"
    and "gs_player game_state \<noteq> update_player"
    and "gs_player game_state < length reach_probs"
  shows "external_cfr (Suc fuel) M game_state reach_probs update_player (d, r) =
     (case choices (random_random M) (get_possible_actions (game M) game_state)
             (regret_matching (entry_of d (get_info_key M game_state))) r of
        Inl e \<Rightarrow> Some (Inl e)
      | Inr (action, r1) \<Rightarrow>
          rbind (external_cfr fuel M (get_next_game_state (game M) game_state action)
                   (reach_probs[gs_player game_state :=
                      reach_probs ! gs_player game_state
                        * regret_matching (entry_of d (get_info_key M game_state))
                            ! index_of (get_possible_actions (game M) game_state) action])
                   update_player (snd (get_infoset d (get_info_key M game_state)), r1))
            (\<lambda>(v, s'). Some (Inr (transition_sign M game_state action * v, s'))))
   \<and> entry_of (snd (get_infoset d (get_info_key M game_state))) = entry_of d
   \<and> (length (cumulative_regrets (entry_of d (get_info_key M game_state)))
          = length (get_possible_actions (game M) game_state)
        \<and> 0 \<le> fst (random_random M r) \<and> fst (random_random M r) < 1
      \<longrightarrow> (\<exists>j < length (get_possible_actions (game M) game_state).
             choices (random_random M) (get_possible_actions (game M) game_state)
               (regret_matching (entry_of d (get_info_key M game_state))) r
               = Inr (get_possible_actions (game M) game_state ! j, snd (random_random M r))
           \<and> sum_list (take j (regret_matching (entry_of d (get_info_key M game_state))))
                \<le> fst (random_random M r)
           \<and> fst (random_random M r)
                < sum_list (take (Suc j)
                    (regret_matching (entry_of d (get_info_key M game_state))))))"
proof -
  let ?acts = "get_possible_actions (game M) game_state"
  let ?i = "entry_of d (get_info_key M game_state)"
  have ne1: "length ?acts \<noteq> 1" using assms(2) by simp
  note one = external_cfr_sampled_unfold[OF assms(1) ne1 assms(3,4), of fuel d r]
  note two = entry_of_get_infoset[of d "get_info_key M game_state"]
  have three: "\<exists>j < length ?acts.
             choices (random_random M) ?acts (regret_matching ?i) r
               = Inr (?acts ! j, snd (random_random M r))
           \<and> sum_list (take j (regret_matching ?i)) \<le> fst (random_random M r)
           \<and> fst (random_random M r) < sum_list (take (Suc j) (regret_matching ?i))"
    if h: "length (cumulative_regrets ?i) = length ?acts"
          "0 \<le> fst (random_random M r)" "fst (random_random M r) < 1"
  proof -
    have ne: "?acts \<noteq> []" using assms(2) by auto
    hence rne: "cumulative_regrets ?i \<noteq> []" using h(1) by auto
    have len: "length (regret_matching ?i) = length ?acts"
      using h(1) by (simp add: regret_matching_def length_normalize)
    have tot: "sum_list (regret_matching ?i) = 1"
      using sum_list_normalize[of "map (max 0) (cumulative_regrets ?i)"] rne
      by (simp add: regret_matching_def)
    show ?thesis
      using choices_inverse_cdf[where rnd = "random_random M" and r = r, OF len ne tot] h(2,3)
      by blast
  qed
  from one two three show ?thesis by blast
qed

section \<open>The loop over the actions\<close>

lemma run_calls_preserves:
  assumes "\<And>x s v s'. call x s = Some (Inr (v, s')) \<Longrightarrow> f s' = f s"
    and "run_calls call xs s = Some (Inr (vs, s'))"
  shows "f s' = f s"
  using assms(2)
proof (induction xs arbitrary: s vs)
  case Nil
  thus ?case by simp
next
  case (Cons x xs)
  from Cons.prems obtain v s1 ws where
    1: "call x s = Some (Inr (v, s1))" and 2: "run_calls call xs s1 = Some (Inr (ws, s'))"
    by (auto simp: rbind_eq_Inr)
  from Cons.IH[OF 2] assms(1)[OF 1] show ?case by simp
qed

lemma cfr_actions_run_calls:
  assumes "ix + length actions \<le> length strategy"
    and "actions = [] \<or> gs_player game_state < length reach_probs"
  shows "cfr_actions rec M game_state reach_probs strategy actions ix payoff s =
     rbind (run_calls (\<lambda>(g, p). rec g p)
              (child_calls M game_state reach_probs strategy ix actions) s)
       (\<lambda>(vs, s').
          Some (Inr (map (\<lambda>(c, v). c * v) (zip (loop_payoffs M game_state actions payoff) vs),
                     s')))"
  using assms
proof (induction actions arbitrary: ix payoff s)
  case Nil
  show ?case by (simp add: child_calls_def)
next
  case (Cons a actions)
  have ih: "\<And>payoff s. cfr_actions rec M game_state reach_probs strategy actions (Suc ix) payoff s =
     rbind (run_calls (\<lambda>(g, p). rec g p)
              (child_calls M game_state reach_probs strategy (Suc ix) actions) s)
       (\<lambda>(vs, s').
          Some (Inr (map (\<lambda>(c, v). c * v) (zip (loop_payoffs M game_state actions payoff) vs),
                     s')))"
    using Cons.prems by (intro Cons.IH) auto
  have "ix < length strategy" "gs_player game_state < length reach_probs"
    using Cons.prems by auto
  thus ?case
    by (simp add: ih child_calls_def Let_def rbind_def
             split: option.split sum.split prod.split split del: if_split cong: if_cong)
qed

lemma cfr_actions_Inr_length:
  "cfr_actions rec M game_state reach_probs strategy actions ix payoff s = Some (Inr (vs, s'))
   \<Longrightarrow> (actions = [] \<or> ix + length actions \<le> length strategy)
       \<and> (actions = [] \<or> gs_player game_state < length reach_probs)
       \<and> length vs = length actions"
proof (induction actions arbitrary: ix payoff s vs)
  case Nil
  thus ?case by simp
next
  case (Cons a actions)
  from Cons.prems have ix: "ix < length strategy" "gs_player game_state < length reach_probs"
    by (simp_all split: if_splits)
  with Cons.prems obtain ws p' s1 where
    "cfr_actions rec M game_state reach_probs strategy actions (Suc ix) p' s1 = Some (Inr (ws, s'))"
    and "length vs = Suc (length ws)"
    by (auto simp: Let_def rbind_eq_Inr split: if_splits)
  with Cons.IH[of "Suc ix" p' s1 ws] ix show ?case by auto
qed

lemma length_loop_payoffs: "length (loop_payoffs M game_state actions payoff) = length actions"
  by (induction actions arbitrary: payoff) (simp_all add: Let_def)

lemma length_regret_matching: "length (regret_matching i) = length (cumulative_regrets i)"
  by (simp add: regret_matching_def length_normalize)

lemma sum_list_zip_nth:
  "length xs = n \<Longrightarrow> length ys = n \<Longrightarrow>
   sum_list (map (\<lambda>(x, y). f x y) (zip xs ys)) = (\<Sum>a\<leftarrow>[0..<n]. f (xs ! a) (ys ! a))"
proof -
  assume l: "length xs = n" "length ys = n"
  hence "map (\<lambda>(x, y). f x y) (zip xs ys) = map (\<lambda>a. f (xs ! a) (ys ! a)) [0..<n]"
    by (intro nth_equalityI) simp_all
  thus ?thesis by simp
qed

lemma entry_of_upd: "entry_of (d(k \<mapsto> i)) = (entry_of d)(k := i)"
  by (rule ext) (simp add: entry_of_def)

lemma cfr_actions_Inr_run_calls:
  assumes "cfr_actions rec M game_state reach_probs strategy actions 0 payoff s = Some (Inr (cfv, s'))"
  shows "\<exists>vs. run_calls (\<lambda>(g, p). rec g p)
                 (child_calls M game_state reach_probs strategy 0 actions) s = Some (Inr (vs, s'))
             \<and> cfv = map (\<lambda>(c, v). c * v) (zip (loop_payoffs M game_state actions payoff) vs)"
proof -
  from cfr_actions_Inr_length[OF assms]
  have 1: "0 + length actions \<le> length strategy"
    and 2: "actions = [] \<or> gs_player game_state < length reach_probs"
    by auto
  note eq = cfr_actions_run_calls[where rec = rec and M = M and payoff = payoff and s = s, OF 1 2]
  from assms[unfolded eq] show ?thesis
    by (auto simp: rbind_eq_Inr)
qed

lemma length_add_regrets:
  "add_regrets x cfv v i = Inr e \<Longrightarrow>
   length (cumulative_regrets e) = length (cumulative_regrets i) \<and> strategy_sum e = strategy_sum i"
  by (auto simp: add_regrets_def split: if_splits)

lemma update_regrets_Inr:
  assumes "update_regrets reach_probs opponent strategy info_key cfv d = Some (Inr (v, d'))"
  shows "\<exists>e. dot cfv strategy = Inr v
           \<and> add_regrets (reach_probs ! opponent) cfv v (entry_of d info_key) = Inr e
           \<and> d' = d(info_key \<mapsto> e)"
  using assms
  by (auto simp: update_regrets_def fst_get_infoset split: sum.splits if_splits)

lemma chance_cfr_regret_lengths:
  "chance_cfr fuel M game_state reach_probs d = Some (Inr (v, d')) \<Longrightarrow>
   (\<lambda>k. length (cumulative_regrets (entry_of d' k)))
     = (\<lambda>k. length (cumulative_regrets (entry_of d k)))"
proof (induction fuel arbitrary: game_state reach_probs d v d')
  case 0
  thus ?case by simp
next
  case (Suc fuel)
  let ?f = "\<lambda>d k. length (cumulative_regrets (entry_of d k))"
  let ?acts = "get_possible_actions (game M) game_state"
  let ?key = "get_info_key M game_state"
  show ?case
  proof (cases "gs_terminal game_state")
    case True
    with Suc.prems show ?thesis by (simp add: chance_node_def)
  next
    case nt: False
    show ?thesis
    proof (cases "length ?acts = 1")
      case True
      with nt Suc.prems obtain w where
        "chance_cfr fuel M (get_next_game_state (game M) game_state (?acts ! 0)) reach_probs d
           = Some (Inr (w, d'))"
        by (auto simp: chance_node_def Let_def rbind_eq_Inr)
      thus ?thesis by (rule Suc.IH)
    next
      case False
      let ?i = "entry_of d ?key"
      let ?strategy = "regret_matching ?i"
      let ?d1 = "snd (get_infoset d ?key)"
      let ?d2 = "?d1(?key \<mapsto> update_strategy_sum (reach_probs ! gs_player game_state) ?i)"
      from nt False Suc.prems obtain cfv d3 where
        loop: "cfr_actions (chance_cfr fuel M) M game_state reach_probs ?strategy ?acts 0 (- 1) ?d2
                 = Some (Inr (cfv, d3))"
        and upd: "update_regrets reach_probs ((gs_player game_state + 1) mod 2) ?strategy ?key cfv d3
                 = Some (Inr (v, d'))"
        by (auto simp: chance_node_def Let_def split_beta rbind_eq_Inr fst_get_infoset
                 split: if_splits)
      from cfr_actions_Inr_run_calls[OF loop] obtain vs where
        run: "run_calls (\<lambda>(g, p). chance_cfr fuel M g p)
                (child_calls M game_state reach_probs ?strategy 0 ?acts) ?d2 = Some (Inr (vs, d3))"
        by blast
      have "?f d3 = ?f ?d2"
      proof (rule run_calls_preserves[where f = ?f, OF _ run])
        fix x s w s'
        assume "(case x of (g, p) \<Rightarrow> chance_cfr fuel M g p) s = Some (Inr (w, s'))"
        thus "?f s' = ?f s" by (cases x) (auto dest: Suc.IH)
      qed
      moreover have "?f ?d2 = ?f d"
        by (rule ext)
           (simp add: entry_of_upd entry_of_get_infoset update_strategy_sum_def)
      moreover from update_regrets_Inr[OF upd] obtain e where
        e: "add_regrets (reach_probs ! ((gs_player game_state + 1) mod 2)) cfv v (entry_of d3 ?key)
              = Inr e" "d' = d3(?key \<mapsto> e)"
        by blast
      have "?f d' = ?f d3"
        using length_add_regrets[OF e(1)] by (intro ext) (simp add: e(2) entry_of_upd)
      ultimately show ?thesis by simp
    qed
  qed
qed

section \<open>The updating node of chance-sampled CFR\<close>

lemma length_child_calls:
  "length (child_calls M game_state reach_probs strategy ix actions) = length actions"
  by (simp add: child_calls_def)

lemma update_strategy_sum_nth:
  assumes "length (strategy_sum i) = n" "length (cumulative_regrets i) = n"
  shows "update_strategy_sum x i =
           i\<lparr>strategy_sum := map (\<lambda>a. strategy_sum i ! a + x * regret_matching i ! a) [0..<n]\<rparr>"
proof -
  have "map (\<lambda>(s, p). s + x * p) (zip (strategy_sum i) (regret_matching i))
          = map (\<lambda>a. strategy_sum i ! a + x * regret_matching i ! a) [0..<n]"
    using assms by (intro nth_equalityI) (simp_all add: length_regret_matching)
  thus ?thesis by (simp add: update_strategy_sum_def)
qed

lemma add_regrets_nth:
  assumes "length (cumulative_regrets i) = n" "length cfv = n"
  shows "add_regrets x cfv v i =
           Inr (i\<lparr>cumulative_regrets :=
                    map (\<lambda>a. cumulative_regrets i ! a + x * (cfv ! a - v)) [0..<n]\<rparr>)"
proof -
  have "map (\<lambda>ix. if ix < length cfv then cumulative_regrets i ! ix + x * (cfv ! ix - v)
                   else cumulative_regrets i ! ix) [0..<length (cumulative_regrets i)]
          = map (\<lambda>a. cumulative_regrets i ! a + x * (cfv ! a - v)) [0..<n]"
    using assms by (intro nth_equalityI) simp_all
  thus ?thesis using assms by (simp add: add_regrets_def)
qed

lemma update_regrets_nth:
  assumes "length (cumulative_regrets (entry_of d info_key)) = n" "length cfv = n"
    "length strategy = n" "opponent < length reach_probs"
  shows "update_regrets reach_probs opponent strategy info_key cfv d =
     Some (Inr ((\<Sum>a\<leftarrow>[0..<n]. cfv ! a * strategy ! a),
       d(info_key \<mapsto> (entry_of d info_key)\<lparr>cumulative_regrets :=
           map (\<lambda>a. cumulative_regrets (entry_of d info_key) ! a
                      + reach_probs ! opponent
                          * (cfv ! a - (\<Sum>a\<leftarrow>[0..<n]. cfv ! a * strategy ! a)))
               [0..<n]\<rparr>)))"
proof -
  have dot: "dot cfv strategy = Inr (\<Sum>a\<leftarrow>[0..<n]. cfv ! a * strategy ! a)"
    using assms(2,3) sum_list_zip_nth[of cfv n strategy "(*)"] by (simp add: dot_def)
  show ?thesis
    using assms(4)
    by (simp add: update_regrets_def dot fst_get_infoset add_regrets_nth[OF assms(1,2)])
qed

text \<open>
  The node with several actions as one equation: the strategy sums are increased first,
  the recursive calls run one after the other, the node value is the dot product, and the
  regrets are increased last, on the infoset as the recursive calls left it.
\<close>

lemma chance_cfr_multi_action_node:
  fixes M :: "('c, 'h, 'a, 'ah, 'r) mccfr"
  assumes "\<not> gs_terminal game_state"
    and "2 \<le> length (get_possible_actions (game M) game_state)"
    and "length reach_probs = 2"
    and "gs_player game_state < 2"
    and "length (cumulative_regrets (entry_of d (get_info_key M game_state)))
           = length (get_possible_actions (game M) game_state)"
    and "length (strategy_sum (entry_of d (get_info_key M game_state)))
           = length (get_possible_actions (game M) game_state)"
  defines "actions \<equiv> get_possible_actions (game M) game_state"
    and "player \<equiv> gs_player game_state"
    and "info_key \<equiv> get_info_key M game_state"
  defines "strategy \<equiv> regret_matching (entry_of d info_key)"
    and "payoffs \<equiv> loop_payoffs M game_state actions (- 1)"
  defines "node_value \<equiv> (\<lambda>vs. \<Sum>a\<leftarrow>[0..<length actions]. payoffs ! a * vs ! a * strategy ! a)"
  shows "chance_cfr (Suc fuel) M game_state reach_probs d =
     rbind (run_calls (\<lambda>(g, p). chance_cfr fuel M g p)
              (child_calls M game_state reach_probs strategy 0 actions)
              ((snd (get_infoset d info_key))
                 (info_key \<mapsto> (entry_of d info_key)\<lparr>strategy_sum :=
                    map (\<lambda>a. strategy_sum (entry_of d info_key) ! a
                               + reach_probs ! player * strategy ! a)
                        [0..<length actions]\<rparr>)))
       (\<lambda>(vs, d3).
          Some (Inr (node_value vs,
            d3(info_key \<mapsto> (entry_of d3 info_key)\<lparr>cumulative_regrets :=
                 map (\<lambda>a. cumulative_regrets (entry_of d3 info_key) ! a
                            + reach_probs ! ((player + 1) mod 2)
                                * (payoffs ! a * vs ! a - node_value vs))
                     [0..<length actions]\<rparr>))))"
proof -
  let ?n = "length actions"
  let ?i = "entry_of d info_key"
  let ?d2 = "(snd (get_infoset d info_key))
                 (info_key \<mapsto> ?i\<lparr>strategy_sum :=
                    map (\<lambda>a. strategy_sum ?i ! a + reach_probs ! player * strategy ! a)
                        [0..<?n]\<rparr>)"
  let ?run = "run_calls (\<lambda>(g, p). chance_cfr fuel M g p)
              (child_calls M game_state reach_probs strategy 0 actions) ?d2"
  have ne1: "length actions \<noteq> 1" using assms(2) by (simp add: actions_def)
  have pl: "player < length reach_probs" using assms(3,4) by (simp add: player_def)
  have opp: "(player + 1) mod 2 < length reach_probs" using assms(3) by simp
  have ls: "length strategy = ?n"
    using assms(5) by (simp add: strategy_def length_regret_matching info_key_def actions_def)
  have upd: "update_strategy_sum (reach_probs ! player) ?i =
      ?i\<lparr>strategy_sum :=
           map (\<lambda>a. strategy_sum ?i ! a + reach_probs ! player * strategy ! a) [0..<?n]\<rparr>"
    unfolding strategy_def
    using assms(5,6)
    by (intro update_strategy_sum_nth) (simp_all add: info_key_def actions_def)
  have loop: "cfr_actions (chance_cfr fuel M) M game_state reach_probs strategy actions 0 (- 1) ?d2 =
     rbind ?run (\<lambda>(vs, s'). Some (Inr (map (\<lambda>(c, v). c * v) (zip payoffs vs), s')))"
    unfolding payoffs_def
    using ls pl by (intro cfr_actions_run_calls) (simp_all add: player_def)
  have unfold: "chance_cfr (Suc fuel) M game_state reach_probs d =
     rbind (cfr_actions (chance_cfr fuel M) M game_state reach_probs strategy actions 0 (- 1) ?d2)
       (\<lambda>(cfv, d3). update_regrets reach_probs ((player + 1) mod 2) strategy info_key cfv d3)"
    using assms(1) ne1 pl
    by (simp add: chance_node_def Let_def split_beta fst_get_infoset upd
          actions_def[symmetric] player_def[symmetric] info_key_def[symmetric]
          strategy_def[symmetric])
  show ?thesis
  proof (cases ?run rule: rbind_cases)
    case 1
    thus ?thesis unfolding unfold loop by simp
  next
    case (2 e)
    thus ?thesis unfolding unfold loop by simp
  next
    case (3 x)
    obtain vs d3 where x: "x = (vs, d3)" by (cases x)
    have run: "?run = Some (Inr (vs, d3))" using 3 x by simp
    have lv: "length vs = ?n"
      using run_calls_length[OF run] by (simp add: length_child_calls)
    let ?cfv = "map (\<lambda>(c, v). c * v) (zip payoffs vs)"
    have lc: "length ?cfv = ?n" using lv by (simp add: payoffs_def length_loop_payoffs)
    have cn: "\<And>a. a < ?n \<Longrightarrow> ?cfv ! a = payoffs ! a * vs ! a"
      using lv by (simp add: payoffs_def length_loop_payoffs)
    have "(\<lambda>k. length (cumulative_regrets (entry_of d3 k)))
            = (\<lambda>k. length (cumulative_regrets (entry_of ?d2 k)))"
    proof (rule run_calls_preserves[where f = "\<lambda>d k. length (cumulative_regrets (entry_of d k))",
             OF _ run])
      fix y s w s'
      assume "(case y of (g, p) \<Rightarrow> chance_cfr fuel M g p) s = Some (Inr (w, s'))"
      thus "(\<lambda>k. length (cumulative_regrets (entry_of s' k)))
              = (\<lambda>k. length (cumulative_regrets (entry_of s k)))"
        by (cases y) (auto dest: chance_cfr_regret_lengths)
    qed
    hence "length (cumulative_regrets (entry_of d3 info_key))
             = length (cumulative_regrets (entry_of ?d2 info_key))"
      by (rule fun_cong)
    hence lr: "length (cumulative_regrets (entry_of d3 info_key)) = ?n"
      using assms(5) by (simp add: entry_of_upd info_key_def actions_def)
    have nv: "(\<Sum>a\<leftarrow>[0..<?n]. ?cfv ! a * strategy ! a) = node_value vs"
      unfolding node_value_def
      by (rule arg_cong[where f = sum_list], rule map_cong) (simp_all add: cn)
    have reg: "map (\<lambda>a. cumulative_regrets (entry_of d3 info_key) ! a
                      + reach_probs ! ((player + 1) mod 2) * (?cfv ! a - node_value vs)) [0..<?n]
             = map (\<lambda>a. cumulative_regrets (entry_of d3 info_key) ! a
                      + reach_probs ! ((player + 1) mod 2)
                          * (payoffs ! a * vs ! a - node_value vs)) [0..<?n]"
      by (rule map_cong) (simp_all add: cn)
    note final = update_regrets_nth[OF lr lc ls opp, unfolded nv reg]
    show ?thesis
      unfolding unfold loop run
      by (simp only: rbind_simps prod.case final)
  qed
qed

section \<open>Dictionaries that differ in missing entries only\<close>

lemma dict_eqI:
  assumes "entry_of A = entry_of B" "dom A = dom B"
  shows "A = B"
proof (rule ext)
  fix k
  show "A k = B k"
  proof (cases "A k")
    case None
    hence "k \<notin> dom A" by (simp add: domIff)
    hence "k \<notin> dom B" using assms(2) by simp
    hence "B k = None" by (simp add: domIff)
    with None show ?thesis by simp
  next
    case (Some a)
    hence "k \<in> dom A" by (simp add: domIff)
    hence "k \<in> dom B" using assms(2) by simp
    then obtain b where b: "B k = Some b" by (auto simp: domIff)
    from fun_cong[OF assms(1), of k] Some b show ?thesis by (simp add: entry_of_def)
  qed
qed

text \<open>A call that reads the dictionary through its entries only and adds missing ones.\<close>

lemma run_calls_transfer:
  assumes call: "\<forall>x d v d' D. call x d = Some (Inr (v, d')) \<longrightarrow> entry_of D = entry_of d \<longrightarrow>
      (\<exists>D'. call x D = Some (Inr (v, D')) \<and> entry_of D' = entry_of D
           \<and> dom D \<subseteq> dom D' \<and> dom D' \<subseteq> dom D \<union> dom d')"
    and run: "run_calls call xs d = Some (Inr (vs, d'))"
    and eq: "entry_of D = entry_of d"
  shows "\<exists>D'. run_calls call xs D = Some (Inr (vs, D')) \<and> entry_of D' = entry_of D
           \<and> dom D \<subseteq> dom D' \<and> dom D' \<subseteq> dom D \<union> dom d'"
  using run eq
proof (induction xs arbitrary: d D vs)
  case Nil
  thus ?case by auto
next
  case (Cons x xs)
  from Cons.prems(1) obtain v d1 ws where
    1: "call x d = Some (Inr (v, d1))" and 2: "run_calls call xs d1 = Some (Inr (ws, d'))"
    and vs: "vs = v # ws"
    by (auto simp: rbind_eq_Inr)
  from call 1 Cons.prems(2) obtain D1 where
    D1: "call x D = Some (Inr (v, D1))" "entry_of D1 = entry_of D" "dom D \<subseteq> dom D1"
        "dom D1 \<subseteq> dom D \<union> dom d1"
    by blast
  from call 1 have "\<exists>D'. call x d = Some (Inr (v, D')) \<and> entry_of D' = entry_of d
           \<and> dom d \<subseteq> dom D' \<and> dom D' \<subseteq> dom d \<union> dom d1"
    by blast
  with 1 have d1: "entry_of d1 = entry_of d" by auto
  from Cons.IH[OF 2 refl] 2 have d1': "dom d1 \<subseteq> dom d'" by auto
  have "entry_of D1 = entry_of d1" using D1(2) d1 Cons.prems(2) by simp
  from Cons.IH[OF 2 this] obtain D' where
    D': "run_calls call xs D1 = Some (Inr (ws, D'))" "entry_of D' = entry_of D1"
        "dom D1 \<subseteq> dom D'" "dom D' \<subseteq> dom D1 \<union> dom d'"
    by blast
  have "run_calls call (x # xs) D = Some (Inr (vs, D'))"
    using D1(1) D'(1) vs by simp
  moreover have "entry_of D' = entry_of D" using D'(2) D1(2) by simp
  moreover have "dom D \<subseteq> dom D'" using D1(3) D'(3) by blast
  moreover have "dom D' \<subseteq> dom D \<union> dom d'" using D'(4) D1(4) d1' by blast
  ultimately show ?case by blast
qed

lemma run_calls_values:
  assumes call: "\<forall>x d v d'. call x d = Some (Inr (v, d')) \<longrightarrow>
                   entry_of d' = entry_of d \<and> v = h x d"
    and cong: "\<forall>x d D. entry_of D = entry_of d \<longrightarrow> h x D = h x d"
    and run: "run_calls call xs d = Some (Inr (vs, d'))"
  shows "vs = map (\<lambda>x. h x d) xs"
  using run
proof (induction xs arbitrary: d vs)
  case Nil
  thus ?case by simp
next
  case (Cons x xs)
  from Cons.prems obtain v d1 ws where
    1: "call x d = Some (Inr (v, d1))" and 2: "run_calls call xs d1 = Some (Inr (ws, d'))"
    and vs: "vs = v # ws"
    by (auto simp: rbind_eq_Inr)
  from call 1 have 3: "entry_of d1 = entry_of d" "v = h x d" by blast+
  from cong 3(1) have "\<And>y. h y d1 = h y d" by blast
  with Cons.IH[OF 2] vs 3(2) show ?case by simp
qed

lemma evaluate_actions_run_calls:
  assumes "ix + length actions \<le> length strategy"
  shows "evaluate_actions rec M game_state reach_prob strategy actions ix payoff d =
     rbind (run_calls (\<lambda>(g, p). rec g p)
              (eval_calls M game_state reach_prob strategy ix actions) d)
       (\<lambda>(vs, d').
          Some (Inr (map (\<lambda>(c, v). c * v) (zip (loop_payoffs M game_state actions payoff) vs),
                     d')))"
  using assms
proof (induction actions arbitrary: ix payoff d)
  case Nil
  show ?case by (simp add: eval_calls_def)
next
  case (Cons a actions)
  have ih: "\<And>payoff d. evaluate_actions rec M game_state reach_prob strategy actions (Suc ix) payoff d =
     rbind (run_calls (\<lambda>(g, p). rec g p)
              (eval_calls M game_state reach_prob strategy (Suc ix) actions) d)
       (\<lambda>(vs, d').
          Some (Inr (map (\<lambda>(c, v). c * v) (zip (loop_payoffs M game_state actions payoff) vs),
                     d')))"
    using Cons.prems by (intro Cons.IH) auto
  have "ix < length strategy" using Cons.prems by auto
  thus ?case
    by (simp add: ih eval_calls_def Let_def rbind_def
             split: option.split sum.split prod.split split del: if_split cong: if_cong)
qed

lemma evaluate_actions_Inr_length:
  "evaluate_actions rec M game_state reach_prob strategy actions ix payoff d = Some (Inr (vs, d'))
   \<Longrightarrow> (actions = [] \<or> ix + length actions \<le> length strategy) \<and> length vs = length actions"
proof (induction actions arbitrary: ix payoff d vs)
  case Nil
  thus ?case by simp
next
  case (Cons a actions)
  from Cons.prems have ix: "ix < length strategy"
    by (simp_all split: if_splits)
  with Cons.prems obtain ws p' d1 where
    "evaluate_actions rec M game_state reach_prob strategy actions (Suc ix) p' d1 = Some (Inr (ws, d'))"
    and "length vs = Suc (length ws)"
    by (auto simp: Let_def rbind_eq_Inr split: if_splits)
  with Cons.IH[of "Suc ix" p' d1 ws] ix show ?case by auto
qed

section \<open>The evaluation reads the dictionary through its entries\<close>

lemma evaluate_node_multi:
  assumes "\<not> gs_terminal game_state"
    and "length (get_possible_actions (game M) game_state) \<noteq> 1"
  shows "evaluate_node rec M game_state reach_prob d =
     rbind (evaluate_actions rec M game_state reach_prob
              (get_average_strategy (entry_of d (get_info_key M game_state)))
              (get_possible_actions (game M) game_state) 0 (- 1)
              (snd (get_infoset d (get_info_key M game_state))))
       (\<lambda>(partial_values, d2).
          case dot partial_values
                 (get_average_strategy (entry_of d (get_info_key M game_state))) of
            Inl e \<Rightarrow> Some (Inl e)
          | Inr node_value \<Rightarrow> Some (Inr (node_value, d2)))"
  using assms by (simp add: evaluate_node_def Let_def split_beta fst_get_infoset)

lemma evaluate_node_single:
  assumes "\<not> gs_terminal game_state"
    and "length (get_possible_actions (game M) game_state) = 1"
  shows "evaluate_node rec M game_state reach_prob d =
     rbind (rec (get_next_game_state (game M) game_state
                   (get_possible_actions (game M) game_state ! 0)) reach_prob d)
       (\<lambda>(v, d'). Some (Inr (transition_sign M game_state
                                 (get_possible_actions (game M) game_state ! 0) * v, d')))"
  using assms by (simp add: evaluate_node_def Let_def transition_sign_def)

lemma evaluate_node_terminal:
  assumes "gs_terminal game_state"
  shows "evaluate_node rec M game_state reach_prob d
           = Some (Inr (get_payoff (game M) game_state, d))"
  using assms by (simp add: evaluate_node_def)

lemma dot_case_Inr:
  "(case dot a b of Inl e \<Rightarrow> Some (Inl e) | Inr nv \<Rightarrow> Some (Inr (nv, d2))) = Some (Inr (v, d'))
   \<longleftrightarrow> dot a b = Inr v \<and> d2 = d'"
  by (cases "dot a b") auto

lemma evaluate_helper_transfer:
  fixes M :: "('c, 'h, 'a, 'ah, 'r) mccfr"
  assumes "evaluate_helper fuel M game_state reach_prob d = Some (Inr (v, d'))"
    and "entry_of D = entry_of d"
  shows "\<exists>D'. evaluate_helper fuel M game_state reach_prob D = Some (Inr (v, D'))
           \<and> entry_of D' = entry_of D \<and> dom D \<subseteq> dom D' \<and> dom D' \<subseteq> dom D \<union> dom d'"
  using assms
proof (induction fuel arbitrary: game_state reach_prob d v d' D)
  case 0
  thus ?case by simp
next
  case (Suc fuel)
  let ?acts = "get_possible_actions (game M) game_state"
  let ?key = "get_info_key M game_state"
  show ?case
  proof (cases "gs_terminal game_state")
    case True
    with Suc.prems show ?thesis by (auto simp: evaluate_node_terminal)
  next
    case nt: False
    show ?thesis
    proof (cases "length ?acts = 1")
      case True
      from Suc.prems(1) obtain w where
        w: "evaluate_helper fuel M (get_next_game_state (game M) game_state (?acts ! 0))
              reach_prob d = Some (Inr (w, d'))"
        and v: "v = transition_sign M game_state (?acts ! 0) * w"
        by (auto simp: evaluate_node_single[OF nt True] rbind_eq_Inr)
      from Suc.IH[OF w Suc.prems(2)] obtain D' where
        "evaluate_helper fuel M (get_next_game_state (game M) game_state (?acts ! 0))
              reach_prob D = Some (Inr (w, D'))"
        "entry_of D' = entry_of D" "dom D \<subseteq> dom D'" "dom D' \<subseteq> dom D \<union> dom d'"
        by blast
      thus ?thesis using v by (auto simp: evaluate_node_single[OF nt True])
    next
      case False
      let ?strategy = "get_average_strategy (entry_of d ?key)"
      let ?d1 = "snd (get_infoset d ?key)"
      let ?D1 = "snd (get_infoset D ?key)"
      let ?call = "\<lambda>(g, p). evaluate_helper fuel M g p"
      let ?calls = "eval_calls M game_state reach_prob ?strategy 0 ?acts"
      let ?payoffs = "loop_payoffs M game_state ?acts (- 1)"
      from Suc.prems(1) obtain pv where
        loop: "evaluate_actions (evaluate_helper fuel M) M game_state reach_prob ?strategy ?acts
                 0 (- 1) ?d1 = Some (Inr (pv, d'))"
        and dot: "dot pv ?strategy = Inr v"
        by (auto simp: evaluate_node_multi[OF nt False] rbind_eq_Inr dot_case_Inr)
      from evaluate_actions_Inr_length[OF loop]
      have len: "0 + length ?acts \<le> length ?strategy" by auto
      note eq = evaluate_actions_run_calls[OF len, where rec = "evaluate_helper fuel M"
                  and M = M and game_state = game_state and reach_prob = reach_prob
                  and payoff = "- 1"]
      from loop[unfolded eq] obtain vs where
        run: "run_calls ?call ?calls ?d1 = Some (Inr (vs, d'))"
        and pv: "pv = map (\<lambda>(c, v). c * v) (zip ?payoffs vs)"
        by (auto simp: rbind_eq_Inr)
      have call: "\<forall>x d v d' D. ?call x d = Some (Inr (v, d')) \<longrightarrow> entry_of D = entry_of d \<longrightarrow>
          (\<exists>D'. ?call x D = Some (Inr (v, D')) \<and> entry_of D' = entry_of D
               \<and> dom D \<subseteq> dom D' \<and> dom D' \<subseteq> dom D \<union> dom d')"
        using Suc.IH by (auto simp: split_beta)
      have e1: "entry_of ?D1 = entry_of ?d1"
        using Suc.prems(2) by (simp add: entry_of_get_infoset)
      from run_calls_transfer[OF call run e1] obtain D' where
        D': "run_calls ?call ?calls ?D1 = Some (Inr (vs, D'))" "entry_of D' = entry_of ?D1"
            "dom ?D1 \<subseteq> dom D'" "dom D' \<subseteq> dom ?D1 \<union> dom d'"
        by blast
      from run_calls_transfer[OF call run refl] run
      have dd: "dom ?d1 \<subseteq> dom d'" by auto
      have key: "entry_of D ?key = entry_of d ?key" using Suc.prems(2) by simp
      have "evaluate_actions (evaluate_helper fuel M) M game_state reach_prob ?strategy ?acts
                 0 (- 1) ?D1 = Some (Inr (pv, D'))"
        unfolding eq using D'(1) pv by simp
      hence "evaluate_helper (Suc fuel) M game_state reach_prob D = Some (Inr (v, D'))"
        using dot by (simp add: evaluate_node_multi[OF nt False] key)
      moreover have "entry_of D' = entry_of D" using D'(2) by (simp add: entry_of_get_infoset)
      moreover have "dom D \<subseteq> dom D'" using D'(3) by (auto simp: dom_get_infoset)
      moreover have "dom D' \<subseteq> dom D \<union> dom d'"
        using D'(4) dd by (auto simp: dom_get_infoset)
      ultimately show ?thesis by blast
    qed
  qed
qed

lemma evaluate_helper_frame:
  assumes "evaluate_helper fuel M game_state reach_prob d = Some (Inr (v, d'))"
  shows "entry_of d' = entry_of d \<and> dom d \<subseteq> dom d'"
  using evaluate_helper_transfer[OF assms refl] assms by auto

lemma traversal_value_cong:
  "entry_of D = entry_of d \<Longrightarrow> traversal_value fuel M D game_state = traversal_value fuel M d game_state"
proof (induction fuel arbitrary: game_state)
  case 0
  show ?case by simp
next
  case (Suc fuel)
  from Suc.IH[OF Suc.prems]
  have eq: "traversal_value fuel M D = traversal_value fuel M d" by (intro ext)
  show ?case unfolding traversal_value.simps eq Suc.prems by (rule refl)
qed

lemma map_enumerate_snd: "map (\<lambda>x. f (snd x)) (enumerate n xs) = map f xs"
  by (induction xs arbitrary: n) simp_all

lemma evaluate_helper_value:
  fixes M :: "('c, 'h, 'a, 'ah, 'r) mccfr"
  assumes "evaluate_helper fuel M game_state reach_prob d = Some (Inr (v, d'))"
  shows "v = traversal_value fuel M d game_state"
  using assms
proof (induction fuel arbitrary: game_state reach_prob d v d')
  case 0
  thus ?case by simp
next
  case (Suc fuel)
  let ?acts = "get_possible_actions (game M) game_state"
  let ?key = "get_info_key M game_state"
  show ?case
  proof (cases "gs_terminal game_state")
    case True
    with Suc.prems show ?thesis by (auto simp: evaluate_node_terminal)
  next
    case nt: False
    show ?thesis
    proof (cases "length ?acts = 1")
      case True
      from Suc.prems(1) obtain w where
        w: "evaluate_helper fuel M (get_next_game_state (game M) game_state (?acts ! 0))
              reach_prob d = Some (Inr (w, d'))"
        and v: "v = transition_sign M game_state (?acts ! 0) * w"
        by (auto simp: evaluate_node_single[OF nt True] rbind_eq_Inr)
      have "traversal_value (Suc fuel) M d game_state =
              transition_sign M game_state (?acts ! 0)
                * traversal_value fuel M d (get_next_game_state (game M) game_state (?acts ! 0))"
        using nt True by (simp add: Let_def)
      with Suc.IH[OF w] v show ?thesis by simp
    next
      case False
      let ?strategy = "get_average_strategy (entry_of d ?key)"
      let ?d1 = "snd (get_infoset d ?key)"
      let ?call = "\<lambda>(g, p). evaluate_helper fuel M g p"
      let ?calls = "eval_calls M game_state reach_prob ?strategy 0 ?acts"
      let ?payoffs = "loop_payoffs M game_state ?acts (- 1)"
      let ?h = "\<lambda>(x :: ('c, 'h) game_state \<times> real) d. traversal_value fuel M d (fst x)"
      from Suc.prems(1) obtain pv where
        loop: "evaluate_actions (evaluate_helper fuel M) M game_state reach_prob ?strategy ?acts
                 0 (- 1) ?d1 = Some (Inr (pv, d'))"
        and dot: "dot pv ?strategy = Inr v"
        by (auto simp: evaluate_node_multi[OF nt False] rbind_eq_Inr dot_case_Inr)
      from evaluate_actions_Inr_length[OF loop]
      have len: "0 + length ?acts \<le> length ?strategy" by auto
      note eq = evaluate_actions_run_calls[OF len, where rec = "evaluate_helper fuel M"
                  and M = M and game_state = game_state and reach_prob = reach_prob
                  and payoff = "- 1"]
      from loop[unfolded eq] obtain vs where
        run: "run_calls ?call ?calls ?d1 = Some (Inr (vs, d'))"
        and pv: "pv = map (\<lambda>(c, v). c * v) (zip ?payoffs vs)"
        by (auto simp: rbind_eq_Inr)
      have call: "\<forall>x d v d'. ?call x d = Some (Inr (v, d')) \<longrightarrow>
                   entry_of d' = entry_of d \<and> v = ?h x d"
      proof (intro allI impI)
        fix x :: "('c, 'h) game_state \<times> real" and d v d'
        assume "?call x d = Some (Inr (v, d'))"
        hence a: "evaluate_helper fuel M (fst x) (snd x) d = Some (Inr (v, d'))"
          by (simp add: split_beta)
        from evaluate_helper_frame[OF a] Suc.IH[OF a]
        show "entry_of d' = entry_of d \<and> v = ?h x d" by simp
      qed
      have cong: "\<forall>x d D. entry_of D = entry_of d \<longrightarrow> ?h x D = ?h x d"
        using traversal_value_cong by blast
      from run_calls_values[OF call cong run]
      have "vs = map (\<lambda>x. traversal_value fuel M ?d1 (fst x)) ?calls" .
      also have "\<dots> = map (\<lambda>x. traversal_value fuel M d (fst x)) ?calls"
        by (simp add: traversal_value_cong[OF entry_of_get_infoset])
      also have "\<dots> = map (\<lambda>x. traversal_value fuel M d
                                     (get_next_game_state (game M) game_state (snd x)))
                         (enumerate 0 ?acts)"
        by (simp add: eval_calls_def split_beta comp_def)
      also have "\<dots> = map (\<lambda>a. traversal_value fuel M d
                                     (get_next_game_state (game M) game_state a)) ?acts"
        by (rule map_enumerate_snd)
      finally have vs: "vs = map (\<lambda>a. traversal_value fuel M d
                                        (get_next_game_state (game M) game_state a)) ?acts" .
      have "pv = map (\<lambda>(payoff, action).
                         payoff * traversal_value fuel M d
                                    (get_next_game_state (game M) game_state action))
                      (zip ?payoffs ?acts)"
        unfolding pv vs by (simp add: zip_map2 split_beta)
      moreover from dot have "v = sum_list (map (\<lambda>(x, y). x * y) (zip pv ?strategy))"
        by (simp add: dot_def split: if_splits)
      moreover have "traversal_value (Suc fuel) M d game_state =
          sum_list (map (\<lambda>(x, y). x * y)
            (zip (map (\<lambda>(payoff, action).
                         payoff * traversal_value fuel M d
                                    (get_next_game_state (game M) game_state action))
                      (zip ?payoffs ?acts)) ?strategy))"
        using nt False by (simp add: Let_def)
      ultimately show ?thesis by simp
    qed
  qed
qed

lemma evaluate_helper_idem:
  assumes "evaluate_helper fuel M game_state reach_prob d = Some (Inr (v, d'))"
    and "entry_of D = entry_of d" and "dom d' \<subseteq> dom D"
  shows "evaluate_helper fuel M game_state reach_prob D = Some (Inr (v, D))"
proof -
  from evaluate_helper_transfer[OF assms(1,2)] obtain D' where
    D': "evaluate_helper fuel M game_state reach_prob D = Some (Inr (v, D'))"
        "entry_of D' = entry_of D" "dom D \<subseteq> dom D'" "dom D' \<subseteq> dom D \<union> dom d'"
    by blast
  have "dom D' = dom D" using D'(3,4) assms(3) by blast
  with D'(2) have "D' = D" by (rule dict_eqI)
  with D'(1) show ?thesis by simp
qed

lemma evaluate_deals_run_calls:
  "evaluate_deals fuel M hs util d =
     rbind (run_calls (\<lambda>hands. evaluate_helper fuel M (sample_fixed_game (game M) hands) 1) hs d)
       (\<lambda>(vs, d'). Some (Inr (util + sum_list vs, d')))"
proof (induction hs arbitrary: util d)
  case Nil
  show ?case by simp
next
  case (Cons h hs)
  show ?case
    by (simp add: Cons.IH rbind_def add.assoc split: option.split sum.split prod.split)
qed

section \<open>The evaluation and the dictionary\<close>

lemma evaluate_unfold:
  assumes "0 \<le> handsize (game M)" "handsize (game M) \<le> int (length (deck2 (game M)))"
  shows "evaluate fuel M d =
     rbind (run_calls (\<lambda>hands. evaluate_helper fuel M (sample_fixed_game (game M) hands) 1)
              (deals (deck2 (game M)) (nat (handsize (game M)))) d)
       (\<lambda>(vs, d').
          if (length (deck2 (game M)) choose nat (handsize (game M)))
               * ((length (deck2 (game M)) - nat (handsize (game M))) choose nat (handsize (game M)))
             = 0
          then Some (Inl ZeroDivisionError)
          else Some (Inr (sum_list vs
                 / real ((length (deck2 (game M)) choose nat (handsize (game M)))
                     * ((length (deck2 (game M)) - nat (handsize (game M)))
                          choose nat (handsize (game M)))), d')))"
proof -
  have "nat (int (length (deck2 (game M))) - handsize (game M))
          = length (deck2 (game M)) - nat (handsize (game M))"
    using assms by linarith
  thus ?thesis
    using assms
    by (simp add: evaluate_def Let_def evaluate_deals_run_calls rbind_def
             split: option.split sum.split prod.split)
qed

lemma evaluate_Inr_run_calls:
  assumes "evaluate fuel M d = Some (Inr (v, d'))"
  shows "\<exists>vs. run_calls (\<lambda>hands. evaluate_helper fuel M (sample_fixed_game (game M) hands) 1)
                 (deals (deck2 (game M)) (nat (handsize (game M)))) d = Some (Inr (vs, d'))
            \<and> (length (deck2 (game M)) choose nat (handsize (game M)))
               * ((length (deck2 (game M)) - nat (handsize (game M))) choose nat (handsize (game M)))
                 \<noteq> 0
            \<and> v = sum_list vs
                 / real ((length (deck2 (game M)) choose nat (handsize (game M)))
                     * ((length (deck2 (game M)) - nat (handsize (game M)))
                          choose nat (handsize (game M))))
            \<and> 0 \<le> handsize (game M) \<and> handsize (game M) \<le> int (length (deck2 (game M)))"
proof -
  from assms have h: "0 \<le> handsize (game M)" "handsize (game M) \<le> int (length (deck2 (game M)))"
    by (auto simp: evaluate_def Let_def split: if_splits)
  from assms[unfolded evaluate_unfold[OF h]] h show ?thesis
    by (auto simp: rbind_eq_Inr split: if_splits)
qed

lemma deal_call_transfer:
  "\<forall>x d v d' D. evaluate_helper fuel M (sample_fixed_game (game M) x) 1 d = Some (Inr (v, d'))
      \<longrightarrow> entry_of D = entry_of d \<longrightarrow>
      (\<exists>D'. evaluate_helper fuel M (sample_fixed_game (game M) x) 1 D = Some (Inr (v, D'))
           \<and> entry_of D' = entry_of D \<and> dom D \<subseteq> dom D' \<and> dom D' \<subseteq> dom D \<union> dom d')"
  using evaluate_helper_transfer by blast

lemma evaluate_transfer:
  assumes "evaluate fuel M d = Some (Inr (v, d'))" and "entry_of D = entry_of d"
  shows "\<exists>D'. evaluate fuel M D = Some (Inr (v, D'))
           \<and> entry_of D' = entry_of D \<and> dom D \<subseteq> dom D' \<and> dom D' \<subseteq> dom D \<union> dom d'"
proof -
  from evaluate_Inr_run_calls[OF assms(1)] obtain vs where
    run: "run_calls (\<lambda>hands. evaluate_helper fuel M (sample_fixed_game (game M) hands) 1)
                 (deals (deck2 (game M)) (nat (handsize (game M)))) d = Some (Inr (vs, d'))"
    and nz: "(length (deck2 (game M)) choose nat (handsize (game M)))
               * ((length (deck2 (game M)) - nat (handsize (game M))) choose nat (handsize (game M)))
                 \<noteq> 0"
    and v: "v = sum_list vs
                 / real ((length (deck2 (game M)) choose nat (handsize (game M)))
                     * ((length (deck2 (game M)) - nat (handsize (game M)))
                          choose nat (handsize (game M))))"
    and h: "0 \<le> handsize (game M)" "handsize (game M) \<le> int (length (deck2 (game M)))"
    by blast
  from run_calls_transfer[OF deal_call_transfer run assms(2)] obtain D' where
    D': "run_calls (\<lambda>hands. evaluate_helper fuel M (sample_fixed_game (game M) hands) 1)
                 (deals (deck2 (game M)) (nat (handsize (game M)))) D = Some (Inr (vs, D'))"
        "entry_of D' = entry_of D" "dom D \<subseteq> dom D'" "dom D' \<subseteq> dom D \<union> dom d'"
    by blast
  have "evaluate fuel M D = Some (Inr (v, D'))"
    unfolding evaluate_unfold[OF h] using D'(1) nz v by simp
  with D'(2,3,4) show ?thesis by blast
qed

text \<open>
  C2 (amended). When \<open>evaluate\<close> returns, every infoset that was in the dictionary
  before the call is unchanged (same cumulative regrets, same strategy sums); the only
  change is that the keys the evaluation reached and did not find are now present, with
  zero vectors; and a second call, on the dictionary the first one left, returns the same
  value and leaves that dictionary exactly as it is.
\<close>

theorem evaluate_adds_missing_infosets_only:
  assumes "evaluate fuel M d = Some (Inr (v, d'))"
  shows "(\<forall>k \<in> dom d. d' k = d k)
       \<and> (\<forall>k \<in> dom d' - dom d. d' k = Some (Infoset_init k))
       \<and> evaluate fuel M d' = Some (Inr (v, d'))"
proof -
  from evaluate_transfer[OF assms refl] assms
  have e: "entry_of d' = entry_of d" and sub: "dom d \<subseteq> dom d'" by auto
  have 1: "\<forall>k \<in> dom d. d' k = d k"
  proof
    fix k assume "k \<in> dom d"
    then obtain i where i: "d k = Some i" by auto
    with sub obtain i' where i': "d' k = Some i'" by auto
    from fun_cong[OF e, of k] i i' show "d' k = d k" by (simp add: entry_of_def)
  qed
  have 2: "\<forall>k \<in> dom d' - dom d. d' k = Some (Infoset_init k)"
  proof
    fix k assume "k \<in> dom d' - dom d"
    then obtain i' where i': "d' k = Some i'" and n: "d k = None" by auto
    from fun_cong[OF e, of k] i' n show "d' k = Some (Infoset_init k)" by (simp add: entry_of_def)
  qed
  from evaluate_transfer[OF assms e] obtain D' where
    D': "evaluate fuel M d' = Some (Inr (v, D'))" "entry_of D' = entry_of d'"
        "dom d' \<subseteq> dom D'" "dom D' \<subseteq> dom d' \<union> dom d'"
    by blast
  have "dom D' = dom d'" using D'(3,4) by blast
  with D'(2) have "D' = d'" by (rule dict_eqI)
  with D'(1) 1 2 show ?thesis by simp
qed

lemma kuhn_evaluate_returns:
  "\<exists>v d'. evaluate (Suc (Suc 0)) kuhn Map.empty = Some (Inr (v, d'))"
  by (simp add: evaluate_def deals_def model_defs kuhn_defs Let_def numeral_2_eq_2)

theorem evaluate_adds_missing_infosets_only_witness:
  "\<exists>v d'. evaluate (Suc (Suc 0)) kuhn Map.empty = Some (Inr (v, d'))
         \<and> evaluate (Suc (Suc 0)) kuhn d' = Some (Inr (v, d'))"
proof -
  from kuhn_evaluate_returns obtain v d' where
    r: "evaluate (Suc (Suc 0)) kuhn Map.empty = Some (Inr (v, d'))" by blast
  from evaluate_adds_missing_infosets_only[OF r] r show ?thesis by blast
qed

text \<open>
  C2, as stated, fails: \<open>evaluate_helper\<close> fetches its infosets with \<open>get_infoset\<close>,
  which creates the missing ones. On the empty dictionary of the two-action game the call
  returns \<open>0\<close>, and the key \<open>(0, {0}, [], 2)\<close>, absent before the call, holds a
  zero infoset after it.
\<close>

theorem evaluate_creates_infosets:
  "map_option (map_sum id (\<lambda>(v, d'). (v, Map.empty (0 :: nat, {0 :: nat}, [] :: nat list, 2 :: nat),
                                          d' (0, {0}, [], 2))))
     (evaluate (Suc (Suc 0)) kuhn Map.empty)
   = Some (Inr (0, None, Some \<lparr>cumulative_regrets = [0, 0], strategy_sum = [0, 0]\<rparr>))"
  by (simp add: evaluate_def deals_def model_defs kuhn_defs Let_def numeral_2_eq_2)

section \<open>The deals that the evaluation enumerates\<close>

lemma length_combinations: "length (combinations xs k) = length xs choose k"
  by (induction xs k rule: combinations.induct) simp_all

lemma filter_nil_subseqs: "filter (\<lambda>ys. ys = []) (subseqs xs) = [[]]"
  by (induction xs) (simp_all add: Let_def filter_map comp_def)

lemma combinations_subseqs:
  "combinations xs k = filter (\<lambda>ys. length ys = k) (subseqs xs)"
proof (induction xs k rule: combinations.induct)
  case (1 xs)
  show ?case using filter_nil_subseqs[of xs] by simp
next
  case (2 k)
  show ?case by simp
next
  case (3 x xs k)
  thus ?case by (simp add: Let_def filter_map comp_def)
qed

lemma in_combinations_length: "ys \<in> set (combinations xs k) \<Longrightarrow> length ys = k"
  by (simp add: combinations_subseqs)

lemma in_combinations_distinct:
  "distinct xs \<Longrightarrow> ys \<in> set (combinations xs k) \<Longrightarrow> distinct ys \<and> set ys \<subseteq> set xs"
proof -
  assume d: "distinct xs" and "ys \<in> set (combinations xs k)"
  hence s: "ys \<in> set (subseqs xs)" by (simp add: combinations_subseqs)
  hence "set ys \<in> set ` set (subseqs xs)" by blast
  hence "set ys \<subseteq> set xs" unfolding subseqs_powset by blast
  with subseqs_distinctD[OF s d] show ?thesis by simp
qed

lemma distinct_set_combinations:
  "distinct xs \<Longrightarrow> distinct (map set (combinations xs k))"
  unfolding combinations_subseqs
  by (rule distinct_map_filter) (rule distinct_set_subseqs)

lemma set_combinations:
  assumes "distinct xs"
  shows "set ` set (combinations xs k) = {A. A \<subseteq> set xs \<and> card A = k}"
proof (intro set_eqI iffI)
  fix A assume "A \<in> set ` set (combinations xs k)"
  then obtain ys where ys: "ys \<in> set (combinations xs k)" "A = set ys" by blast
  from in_combinations_distinct[OF assms ys(1)] in_combinations_length[OF ys(1)] ys(2)
  show "A \<in> {A. A \<subseteq> set xs \<and> card A = k}" by (simp add: distinct_card)
next
  fix A assume "A \<in> {A. A \<subseteq> set xs \<and> card A = k}"
  hence A: "A \<subseteq> set xs" "card A = k" by simp_all
  hence "A \<in> set ` set (subseqs xs)" unfolding subseqs_powset by simp
  then obtain ys where ys: "ys \<in> set (subseqs xs)" "A = set ys" by blast
  from subseqs_distinctD[OF ys(1) assms] have "length ys = card (set ys)"
    by (simp add: distinct_card)
  with A(2) ys have "ys \<in> set (combinations xs k)" by (simp add: combinations_subseqs)
  with ys(2) show "A \<in> set ` set (combinations xs k)" by blast
qed

lemma distinct_concat_map:
  assumes "distinct xs"
    and "\<And>x. x \<in> set xs \<Longrightarrow> distinct (G x)"
    and "\<And>x y. x \<in> set xs \<Longrightarrow> y \<in> set xs \<Longrightarrow> x \<noteq> y \<Longrightarrow> set (G x) \<inter> set (G y) = {}"
  shows "distinct (concat (map G xs))"
  using assms
proof (induction xs)
  case Nil
  show ?case by simp
next
  case (Cons x xs)
  have "distinct (concat (map G xs))" using Cons.prems by (intro Cons.IH) auto
  moreover have "distinct (G x)" using Cons.prems(2) by simp
  moreover have "set (G x) \<inter> (\<Union>y \<in> set xs. set (G y)) = {}"
  proof -
    have "\<And>y. y \<in> set xs \<Longrightarrow> set (G x) \<inter> set (G y) = {}"
      using Cons.prems(1,3) by (metis distinct.simps(2) list.set_intros(1,2))
    thus ?thesis by blast
  qed
  ultimately show ?case by simp
qed

lemma length_deals:
  "length (deals deck h) = (length deck choose h) * ((length deck - h) choose h)"
proof -
  have "map length (map (\<lambda>dealt_cards.
               map (\<lambda>hand1. [sort hand1,
                              sort (filter (\<lambda>card. card \<notin> set hand1) dealt_cards)])
                   (combinations dealt_cards h))
             (combinations deck (h * 2)))
        = map (\<lambda>_. (h * 2) choose h) (combinations deck (h * 2))"
    by (simp add: length_combinations in_combinations_length)
  hence "length (deals deck h) = (length deck choose (h * 2)) * ((h * 2) choose h)"
    by (simp add: deals_def length_concat sum_list_triv length_combinations del: map_map)
  also have "\<dots> = (length deck choose h) * ((length deck - h) choose h)"
  proof (cases "h * 2 \<le> length deck")
    case True
    from choose_mult[of h "h * 2" "length deck"] True show ?thesis by simp
  next
    case False
    hence 1: "length deck - h < h" and 2: "length deck < h * 2" by simp_all
    have 3: "(length deck choose (h * 2)) = 0" using 2 by (rule binomial_eq_0)
    have 4: "((length deck - h) choose h) = 0" using 1 by (rule binomial_eq_0)
    show ?thesis by (simp only: 3 4 mult_zero_left mult_zero_right)
  qed
  finally show ?thesis .
qed

lemma deals_hand_sets:
  "map (\<lambda>hands. (set (hands ! 0), set (hands ! 1))) (deals deck h) =
     concat (map (\<lambda>D. map (\<lambda>A. (set A, set D - set A)) (combinations D h))
               (combinations deck (h * 2)))"
proof -
  have "\<And>A D :: 'a list. set (filter (\<lambda>card. card \<notin> set A) D) = set D - set A" by auto
  thus ?thesis by (simp add: deals_def map_concat comp_def)
qed

lemma set_deal_pairs:
  assumes "distinct deck"
  shows "set (concat (map (\<lambda>D. map (\<lambda>A. (set A, set D - set A)) (combinations D h))
               (combinations deck (h * 2))))
         = {(A, B). A \<subseteq> set deck \<and> B \<subseteq> set deck \<and> card A = h \<and> card B = h \<and> A \<inter> B = {}}"
    (is "?L = ?R")
proof (intro set_eqI iffI)
  fix p assume "p \<in> ?L"
  then obtain D A where D: "D \<in> set (combinations deck (h * 2))"
    and A: "A \<in> set (combinations D h)" and p: "p = (set A, set D - set A)"
    by auto
  from in_combinations_distinct[OF assms D] have dD: "distinct D" "set D \<subseteq> set deck" by simp_all
  from in_combinations_distinct[OF dD(1) A] have dA: "distinct A" "set A \<subseteq> set D" by simp_all
  have cA: "card (set A) = h" using dA(1) in_combinations_length[OF A] by (simp add: distinct_card)
  have cD: "card (set D) = h * 2" using dD(1) in_combinations_length[OF D] by (simp add: distinct_card)
  have "card (set D - set A) = card (set D) - card (set A)"
    using dA(2) by (intro card_Diff_subset) simp_all
  hence "card (set D - set A) = h" using cA cD by simp
  with cA dA dD p show "p \<in> ?R" by auto
next
  fix p assume "p \<in> ?R"
  then obtain A B where p: "p = (A, B)" and AB: "A \<subseteq> set deck" "B \<subseteq> set deck"
    "card A = h" "card B = h" "A \<inter> B = {}"
    by auto
  have fin: "finite A" "finite B" using AB(1,2) by (auto intro: finite_subset)
  have "card (A \<union> B) = h * 2" using card_Un_disjoint[OF fin AB(5)] AB(3,4) by simp
  moreover have "A \<union> B \<subseteq> set deck" using AB(1,2) by simp
  ultimately have "A \<union> B \<in> set ` set (combinations deck (h * 2))"
    unfolding set_combinations[OF assms] by simp
  then obtain D where D: "D \<in> set (combinations deck (h * 2))" "set D = A \<union> B" by auto
  from in_combinations_distinct[OF assms D(1)] have dD: "distinct D" by simp
  have "A \<in> set ` set (combinations D h)"
    unfolding set_combinations[OF dD] using D(2) AB(3) by simp
  then obtain A' where A': "A' \<in> set (combinations D h)" "set A' = A" by auto
  have "set D - set A' = B" using D(2) A'(2) AB(5) by auto
  with A' D(1) p show "p \<in> ?L" by force
qed

lemma distinct_deal_pairs:
  assumes "distinct deck"
  shows "distinct (concat (map (\<lambda>D. map (\<lambda>A. (set A, set D - set A)) (combinations D h))
               (combinations deck (h * 2))))"
proof (rule distinct_concat_map)
  from distinct_set_combinations[OF assms, of "h * 2"]
  show "distinct (combinations deck (h * 2))" by (simp add: distinct_map)
next
  fix D assume D: "D \<in> set (combinations deck (h * 2))"
  from in_combinations_distinct[OF assms D] have dD: "distinct D" by simp
  from distinct_set_combinations[OF dD, of h]
  have "distinct (map fst (map (\<lambda>A. (set A, set D - set A)) (combinations D h)))"
    by (simp add: comp_def)
  thus "distinct (map (\<lambda>A. (set A, set D - set A)) (combinations D h))"
    by (rule distinct_map[THEN iffD1, THEN conjunct1])
next
  fix D E assume D: "D \<in> set (combinations deck (h * 2))"
    and E: "E \<in> set (combinations deck (h * 2))" and ne: "D \<noteq> E"
  from distinct_set_combinations[OF assms, of "h * 2"]
  have "inj_on set (set (combinations deck (h * 2)))" by (simp add: distinct_map)
  with D E ne have sne: "set D \<noteq> set E" by (auto dest: inj_onD)
  show "set (map (\<lambda>A. (set A, set D - set A)) (combinations D h))
          \<inter> set (map (\<lambda>A. (set A, set E - set A)) (combinations E h)) = {}"
  proof (rule ccontr)
    assume "\<not> ?thesis"
    then obtain A A' where A: "A \<in> set (combinations D h)" "A' \<in> set (combinations E h)"
      and eq: "set A = set A'" "set D - set A = set E - set A'"
      by auto
    from in_combinations_distinct[OF _ D] assms have dD: "distinct D" by simp
    from in_combinations_distinct[OF _ E] assms have dE: "distinct E" by simp
    from in_combinations_distinct[OF dD A(1)] have 1: "set A \<subseteq> set D" by simp
    from in_combinations_distinct[OF dE A(2)] have 2: "set A' \<subseteq> set E" by simp
    from 1 2 eq have "set D = set E" by blast
    with sne show False by simp
  qed
qed

section \<open>The value of the evaluation\<close>

lemma run_calls_total:
  assumes call: "\<forall>x d v d' D. call x d = Some (Inr (v, d')) \<longrightarrow> entry_of D = entry_of d \<longrightarrow>
      (\<exists>D'. call x D = Some (Inr (v, D')) \<and> entry_of D' = entry_of D
           \<and> dom D \<subseteq> dom D' \<and> dom D' \<subseteq> dom D \<union> dom d')"
    and each: "\<forall>x \<in> set xs. \<exists>v d'. call x d0 = Some (Inr (v, d'))"
    and eq: "entry_of d = entry_of d0"
  shows "\<exists>vs d'. run_calls call xs d = Some (Inr (vs, d'))"
  using each eq
proof (induction xs arbitrary: d)
  case Nil
  show ?case by simp
next
  case (Cons x xs)
  from Cons.prems(1) obtain v d1 where 1: "call x d0 = Some (Inr (v, d1))" by auto
  from call 1 Cons.prems(2) obtain D1 where
    D1: "call x d = Some (Inr (v, D1))" "entry_of D1 = entry_of d" by blast
  have "entry_of D1 = entry_of d0" using D1(2) Cons.prems(2) by simp
  from Cons.IH[OF _ this] Cons.prems(1) obtain vs d' where
    "run_calls call xs D1 = Some (Inr (vs, d'))" by auto
  with D1(1) show ?case by simp
qed

lemma evaluate_keeps_entries:
  assumes "evaluate fuel M d = Some (Inr (v, d'))"
  shows "\<forall>k \<in> dom d. d' k = d k"
proof
  from evaluate_transfer[OF assms refl] assms
  have e: "entry_of d' = entry_of d" and sub: "dom d \<subseteq> dom d'" by auto
  fix k assume "k \<in> dom d"
  then obtain i where i: "d k = Some i" by auto
  with sub obtain i' where i': "d' k = Some i'" by auto
  from fun_cong[OF e, of k] i i' show "d' k = d k" by (simp add: entry_of_def)
qed

text \<open>
  For a deck of distinct cards and a hand size \<open>h\<close> with \<open>0 \<le> 2 * h \<le>\<close> the
  size of the deck, when the evaluation of every deal returns on the dictionary at hand:
  \<^item> \<open>evaluate\<close> returns the sum, over the deals it enumerates, of the value the
    traversal computes for the deal's initial state from that dictionary
    (\<open>traversal_value\<close>), divided by \<open>C(deck_size, h) * C(deck_size - h, h)\<close>, and
    leaves every infoset of the dictionary as it was (the dictionary is passed from deal
    to deal, which does not change any value: the infosets created on the way are zero);
  \<^item> the deals enumerated are, as pairs of sets of cards, exactly the ordered pairs of
    disjoint \<open>h\<close>-element subsets of the deck, each once, and there are
    \<open>C(deck_size, h) * C(deck_size - h, h)\<close> of them.
\<close>

lemma evaluate_mean_of_traversal_values:
  fixes M :: "('c :: linorder, 'h, 'a, 'ah, 'r) mccfr"
  assumes "distinct (deck2 (game M))"
    and "0 \<le> handsize (game M)"
    and "2 * handsize (game M) \<le> int (length (deck2 (game M)))"
    and "\<forall>hands \<in> set (deals (deck2 (game M)) (nat (handsize (game M)))).
           \<exists>v d'. evaluate_helper fuel M (sample_fixed_game (game M) hands) 1 d
                     = Some (Inr (v, d'))"
  defines "deck \<equiv> deck2 (game M)" and "h \<equiv> nat (handsize (game M))"
  shows "(\<exists>d'. evaluate fuel M d =
             Some (Inr ((\<Sum>hands\<leftarrow>deals deck h.
                            traversal_value fuel M d (sample_fixed_game (game M) hands))
                        / real ((length deck choose h) * ((length deck - h) choose h)), d'))
            \<and> (\<forall>k \<in> dom d. d' k = d k))
       \<and> (\<forall>hands \<in> set (deals deck h).
            outcome (evaluate_helper fuel M (sample_fixed_game (game M) hands) 1 d)
              = Some (Inr (traversal_value fuel M d (sample_fixed_game (game M) hands))))
       \<and> distinct (map (\<lambda>hands. (set (hands ! 0), set (hands ! 1))) (deals deck h))
       \<and> set (map (\<lambda>hands. (set (hands ! 0), set (hands ! 1))) (deals deck h))
           = {(A, B). A \<subseteq> set deck \<and> B \<subseteq> set deck \<and> card A = h \<and> card B = h \<and> A \<inter> B = {}}
       \<and> length (deals deck h) = (length deck choose h) * ((length deck - h) choose h)"
proof -
  let ?call = "\<lambda>hands. evaluate_helper fuel M (sample_fixed_game (game M) hands) 1"
  let ?E = "\<lambda>hands d. traversal_value fuel M d (sample_fixed_game (game M) hands)"
  let ?count = "(length deck choose h) * ((length deck - h) choose h)"
  have hn: "h \<le> length deck" "h \<le> length deck - h"
    using assms(2,3) by (simp_all add: h_def deck_def)
  have h1: "handsize (game M) \<le> int (length (deck2 (game M)))" using assms(2,3) by simp
  have nz: "?count \<noteq> 0" using hn by simp
  from run_calls_total[of ?call, OF deal_call_transfer assms(4) refl] obtain vs d' where
    run: "run_calls ?call (deals deck h) d = Some (Inr (vs, d'))"
    by (auto simp: deck_def h_def)
  have callv: "\<forall>x d v d'. ?call x d = Some (Inr (v, d')) \<longrightarrow>
                 entry_of d' = entry_of d \<and> v = ?E x d"
    using evaluate_helper_frame evaluate_helper_value by blast
  have cong: "\<forall>x d D. entry_of D = entry_of d \<longrightarrow> ?E x D = ?E x d"
    using traversal_value_cong by blast
  from run_calls_values[of ?call ?E, OF callv cong run]
  have vs: "vs = map (\<lambda>hands. ?E hands d) (deals deck h)" .
  have ev: "evaluate fuel M d = Some (Inr (sum_list vs / real ?count, d'))"
    unfolding evaluate_unfold[OF assms(2) h1]
    using run nz by (simp add: deck_def h_def)
  from evaluate_keeps_entries[OF ev]
  have frame: "\<forall>k \<in> dom d. d' k = d k" .
  have 1: "\<exists>d'. evaluate fuel M d =
             Some (Inr ((\<Sum>hands\<leftarrow>deals deck h. ?E hands d) / real ?count, d'))
            \<and> (\<forall>k \<in> dom d. d' k = d k)"
    using ev frame unfolding vs by blast
  have 2: "\<forall>hands \<in> set (deals deck h).
            outcome (?call hands d) = Some (Inr (?E hands d))"
  proof
    fix hands assume "hands \<in> set (deals deck h)"
    with assms(4) obtain v e where r: "?call hands d = Some (Inr (v, e))"
      by (auto simp: deck_def h_def)
    from evaluate_helper_value[OF r] r show "outcome (?call hands d) = Some (Inr (?E hands d))"
      by (simp add: outcome_def)
  qed
  have d: "distinct deck" using assms(1) by (simp add: deck_def)
  have 3: "distinct (map (\<lambda>hands. (set (hands ! 0), set (hands ! 1))) (deals deck h))"
    unfolding deals_hand_sets by (rule distinct_deal_pairs[OF d])
  have 4: "set (map (\<lambda>hands. (set (hands ! 0), set (hands ! 1))) (deals deck h))
           = {(A, B). A \<subseteq> set deck \<and> B \<subseteq> set deck \<and> card A = h \<and> card B = h \<and> A \<inter> B = {}}"
    unfolding deals_hand_sets by (rule set_deal_pairs[OF d])
  from 1 2 3 4 length_deals[of deck h] show ?thesis by blast
qed

section \<open>The evaluation and the expected payoff\<close>

lemma kuhn2_deals:
  "deals (deck2 (game kuhn2)) (nat (handsize (game kuhn2)))
     = [[[0], [1]], [[1], [0]], [[0], [2]], [[2], [0]], [[1], [2]], [[2], [1]]]"
  by (simp add: deals_def kuhn2_defs numeral_2_eq_2)

lemma kuhn2_count:
  "(length (deck2 (game kuhn2)) choose nat (handsize (game kuhn2)))
     * ((length (deck2 (game kuhn2)) - nat (handsize (game kuhn2)))
          choose nat (handsize (game kuhn2))) = 6"
  by (simp add: kuhn2_defs numeral_3_eq_3)

lemma kuhn2_evaluate:
  "outcome (evaluate (Suc (Suc 0)) kuhn2 Map.empty) = Some (Inr (1 / 2))"
  by (simp add: outcome_def evaluate_def deals_def model_defs kuhn2_defs Let_def numeral_2_eq_2)

lemma kuhn2_expected_mean:
  "(\<Sum>hands\<leftarrow>deals (deck2 (game kuhn2)) (nat (handsize (game kuhn2))).
       expected_payoff (Suc (Suc 0)) kuhn2 Map.empty (sample_fixed_game (game kuhn2) hands))
     / real ((length (deck2 (game kuhn2)) choose nat (handsize (game kuhn2)))
             * ((length (deck2 (game kuhn2)) - nat (handsize (game kuhn2)))
                  choose nat (handsize (game kuhn2)))) = - 1 / 2"
  by (simp add: deals_def model_defs kuhn2_defs Let_def numeral_2_eq_2 entry_of_def
        transition_sign_def)

lemma kuhn2_one_deal:
  "outcome (evaluate_helper (Suc (Suc 0)) kuhn2 (sample_fixed_game (game kuhn2) [[0], [1]]) 1
      Map.empty) = Some (Inr 1)"
  "expected_payoff (Suc (Suc 0)) kuhn2 Map.empty (sample_fixed_game (game kuhn2) [[0], [1]]) = - 2"
  by (simp_all add: outcome_def model_defs kuhn2_defs Let_def entry_of_def transition_sign_def)

text \<open>
  C3. \<open>evaluate\<close> is meant to return the mean, over every ordered pair of disjoint
  hands, of the expected payoff of the deal's initial state under the average strategy.
  The enumeration of the deals, the weighting by the average strategy and the divisor
  \<open>C(deck_size, h) * C(deck_size - h, h)\<close> are as stated
  (\<open>evaluate_mean_of_traversal_values\<close>), but the value of a child is counted with the
  value of the loop's variable \<open>payoff\<close>, which is not set back after an action that
  keeps the player, and not with the sign of the child's own transition. In the game
  \<open>kuhn2\<close> on the empty dictionary every strategy is uniform; the deal \<open>[[0], [1]]\<close>
  has the expected payoff \<open>1/2 * (- 1) - 1/2 * 3 = - 2\<close> and \<open>evaluate_helper\<close>
  returns \<open>1/2 * (- 1) + 1/2 * 3 = 1\<close>; over the six deals the expected payoffs have
  the mean \<open>- 1/2\<close> and \<open>evaluate\<close> returns \<open>1/2\<close>.
\<close>

theorem evaluate_not_expected_payoff:
  "deals (deck2 (game kuhn2)) (nat (handsize (game kuhn2)))
     = [[[0], [1]], [[1], [0]], [[0], [2]], [[2], [0]], [[1], [2]], [[2], [1]]]
   \<and> (length (deck2 (game kuhn2)) choose nat (handsize (game kuhn2)))
       * ((length (deck2 (game kuhn2)) - nat (handsize (game kuhn2)))
            choose nat (handsize (game kuhn2))) = 6
   \<and> outcome (evaluate_helper (Suc (Suc 0)) kuhn2 (sample_fixed_game (game kuhn2) [[0], [1]]) 1
        Map.empty) = Some (Inr 1)
   \<and> expected_payoff (Suc (Suc 0)) kuhn2 Map.empty (sample_fixed_game (game kuhn2) [[0], [1]])
       = - 2
   \<and> outcome (evaluate (Suc (Suc 0)) kuhn2 Map.empty) = Some (Inr (1 / 2))
   \<and> (\<Sum>hands\<leftarrow>deals (deck2 (game kuhn2)) (nat (handsize (game kuhn2))).
         expected_payoff (Suc (Suc 0)) kuhn2 Map.empty (sample_fixed_game (game kuhn2) hands))
       / real ((length (deck2 (game kuhn2)) choose nat (handsize (game kuhn2)))
               * ((length (deck2 (game kuhn2)) - nat (handsize (game kuhn2)))
                    choose nat (handsize (game kuhn2)))) = - 1 / 2"
  using kuhn2_deals kuhn2_count kuhn2_one_deal kuhn2_evaluate kuhn2_expected_mean
  by blast

section \<open>The probability of the sampled action\<close>

lemma index_of_le: "j < length xs \<Longrightarrow> index_of xs (xs ! j) \<le> j"
proof (induction xs arbitrary: j)
  case Nil
  thus ?case by simp
next
  case (Cons x xs)
  show ?case
  proof (cases j)
    case 0
    thus ?thesis by (simp add: index_of_def)
  next
    case (Suc i)
    with Cons.prems have "i < length xs" by simp
    from Cons.IH[OF this] Suc show ?thesis by (simp add: index_of_def)
  qed
qed

lemma nth_index_of: "x \<in> set xs \<Longrightarrow> xs ! index_of xs x = x"
  by (induction xs) (auto simp: index_of_def)

lemma index_of_first: "i < index_of xs x \<Longrightarrow> xs ! i \<noteq> x"
proof -
  assume i: "i < index_of xs x"
  let ?t = "takeWhile (\<lambda>y. y \<noteq> x) xs"
  from i have l: "i < length ?t" by (simp add: index_of_def)
  hence "?t ! i \<in> set ?t" by simp
  hence "?t ! i \<noteq> x" by (rule set_takeWhileD[THEN conjunct2])
  moreover have "?t ! i = xs ! i" using l by (rule takeWhile_nth)
  ultimately show ?thesis by simp
qed

lemma index_of_distinct:
  assumes "distinct xs" "j < length xs"
  shows "index_of xs (xs ! j) = j"
proof -
  have i: "index_of xs (xs ! j) \<le> j" using assms(2) by (rule index_of_le)
  hence l: "index_of xs (xs ! j) < length xs" using assms(2) by simp
  have "xs ! index_of xs (xs ! j) = xs ! j" using assms(2) by (intro nth_index_of) simp
  with assms l show ?thesis by (simp add: nth_eq_iff_index_eq)
qed

text \<open>
  C6. At a non-terminal node with two or more actions whose acting player is not the
  update player, \<open>external_cfr\<close> draws one action with \<open>random.choices\<close> from the
  regret-matching strategy of the node's infoset and makes one recursive call, on that
  action's next state, with the acting player's reach probability multiplied by the
  strategy's entry at \<open>list(possible_actions).index(action)\<close>; its value is the
  child's with the sign of the transition, and the state it returns is the child's. The
  dictionary passed to the child holds the same entries as before (the node's infoset is
  created when new, and neither its regrets nor its strategy sums are changed).
  \<^item> The index is the first position that holds the drawn action: it is the position
    drawn when the actions are distinct.
  \<^item> When the strategy has one entry per action and the generator returns \<open>u\<close> with
    \<open>0 \<le> u < 1\<close>, the position drawn is the \<open>j\<close> with
    \<open>strategy[0] + \<dots> + strategy[j-1] \<le> u < strategy[0] + \<dots> + strategy[j]\<close>, an
    interval of length \<open>strategy[j]\<close>; the one recursive call is on the next state of
    \<open>actions[j]\<close>, and for distinct actions the acting player's reach probability is
    multiplied by \<open>strategy[j]\<close>.
\<close>

theorem external_cfr_samples_one_action:
  fixes M :: "('c, 'h, 'a, 'ah, 'r) mccfr" and d :: "('c, 'ah) infoset_dict" and r :: 'r
  assumes "\<not> gs_terminal game_state"
    and "2 \<le> length (get_possible_actions (game M) game_state)"
    and "gs_player game_state \<noteq> update_player"
    and "gs_player game_state < length reach_probs"
  defines "actions \<equiv> get_possible_actions (game M) game_state"
    and "player \<equiv> gs_player game_state"
    and "info_key \<equiv> get_info_key M game_state"
  defines "strategy \<equiv> regret_matching (entry_of d info_key)"
    and "u \<equiv> fst (random_random M r)"
  shows "external_cfr (Suc fuel) M game_state reach_probs update_player (d, r) =
     (case choices (random_random M) actions strategy r of
        Inl e \<Rightarrow> Some (Inl e)
      | Inr (action, r1) \<Rightarrow>
          rbind (external_cfr fuel M (get_next_game_state (game M) game_state action)
                   (reach_probs[player :=
                      reach_probs ! player * strategy ! index_of actions action])
                   update_player (snd (get_infoset d info_key), r1))
            (\<lambda>(v, s'). Some (Inr (transition_sign M game_state action * v, s'))))
   \<and> entry_of (snd (get_infoset d info_key)) = entry_of d
   \<and> (\<forall>j < length actions.
         index_of actions (actions ! j) \<le> j
       \<and> actions ! index_of actions (actions ! j) = actions ! j
       \<and> (\<forall>i < index_of actions (actions ! j). actions ! i \<noteq> actions ! j)
       \<and> (distinct actions \<longrightarrow> index_of actions (actions ! j) = j))
   \<and> (length (cumulative_regrets (entry_of d info_key)) = length actions
        \<and> 0 \<le> u \<and> u < 1
      \<longrightarrow> (\<exists>j < length actions.
             choices (random_random M) actions strategy r
               = Inr (actions ! j, snd (random_random M r))
           \<and> sum_list (take j strategy) \<le> u
           \<and> u < sum_list (take (Suc j) strategy)
           \<and> external_cfr (Suc fuel) M game_state reach_probs update_player (d, r) =
               rbind (external_cfr fuel M (get_next_game_state (game M) game_state (actions ! j))
                        (reach_probs[player :=
                           reach_probs ! player * strategy ! index_of actions (actions ! j)])
                        update_player (snd (get_infoset d info_key), snd (random_random M r)))
                 (\<lambda>(v, s'). Some (Inr (transition_sign M game_state (actions ! j) * v, s')))
           \<and> (distinct actions \<longrightarrow>
                external_cfr (Suc fuel) M game_state reach_probs update_player (d, r) =
                  rbind (external_cfr fuel M
                           (get_next_game_state (game M) game_state (actions ! j))
                           (reach_probs[player := reach_probs ! player * strategy ! j])
                           update_player (snd (get_infoset d info_key), snd (random_random M r)))
                    (\<lambda>(v, s'). Some (Inr (transition_sign M game_state (actions ! j) * v,
                                           s'))))))"
proof -
  note node = external_cfr_sampled_node[OF assms(1-4), of fuel d r,
                folded actions_def player_def info_key_def,
                folded strategy_def u_def]
  have eq: "external_cfr (Suc fuel) M game_state reach_probs update_player (d, r) =
     (case choices (random_random M) actions strategy r of
        Inl e \<Rightarrow> Some (Inl e)
      | Inr (action, r1) \<Rightarrow>
          rbind (external_cfr fuel M (get_next_game_state (game M) game_state action)
                   (reach_probs[player :=
                      reach_probs ! player * strategy ! index_of actions action])
                   update_player (snd (get_infoset d info_key), r1))
            (\<lambda>(v, s'). Some (Inr (transition_sign M game_state action * v, s'))))"
    using node by blast
  have two: "entry_of (snd (get_infoset d info_key)) = entry_of d"
    by (rule entry_of_get_infoset)
  have three: "\<forall>j < length actions.
         index_of actions (actions ! j) \<le> j
       \<and> actions ! index_of actions (actions ! j) = actions ! j
       \<and> (\<forall>i < index_of actions (actions ! j). actions ! i \<noteq> actions ! j)
       \<and> (distinct actions \<longrightarrow> index_of actions (actions ! j) = j)"
    by (auto simp: index_of_le nth_index_of index_of_distinct dest: index_of_first)
  have four: "\<exists>j < length actions.
             choices (random_random M) actions strategy r
               = Inr (actions ! j, snd (random_random M r))
           \<and> sum_list (take j strategy) \<le> u
           \<and> u < sum_list (take (Suc j) strategy)
           \<and> external_cfr (Suc fuel) M game_state reach_probs update_player (d, r) =
               rbind (external_cfr fuel M (get_next_game_state (game M) game_state (actions ! j))
                        (reach_probs[player :=
                           reach_probs ! player * strategy ! index_of actions (actions ! j)])
                        update_player (snd (get_infoset d info_key), snd (random_random M r)))
                 (\<lambda>(v, s'). Some (Inr (transition_sign M game_state (actions ! j) * v, s')))
           \<and> (distinct actions \<longrightarrow>
                external_cfr (Suc fuel) M game_state reach_probs update_player (d, r) =
                  rbind (external_cfr fuel M
                           (get_next_game_state (game M) game_state (actions ! j))
                           (reach_probs[player := reach_probs ! player * strategy ! j])
                           update_player (snd (get_infoset d info_key), snd (random_random M r)))
                    (\<lambda>(v, s'). Some (Inr (transition_sign M game_state (actions ! j) * v,
                                           s'))))"
    if h: "length (cumulative_regrets (entry_of d info_key)) = length actions"
          "0 \<le> u" "u < 1"
  proof -
    from node h obtain j where j: "j < length actions"
      "choices (random_random M) actions strategy r = Inr (actions ! j, snd (random_random M r))"
      "sum_list (take j strategy) \<le> u" "u < sum_list (take (Suc j) strategy)"
      by blast
    have e1: "external_cfr (Suc fuel) M game_state reach_probs update_player (d, r) =
               rbind (external_cfr fuel M (get_next_game_state (game M) game_state (actions ! j))
                        (reach_probs[player :=
                           reach_probs ! player * strategy ! index_of actions (actions ! j)])
                        update_player (snd (get_infoset d info_key), snd (random_random M r)))
                 (\<lambda>(v, s'). Some (Inr (transition_sign M game_state (actions ! j) * v, s')))"
      unfolding eq j(2) by simp
    have e2: "distinct actions \<longrightarrow>
                external_cfr (Suc fuel) M game_state reach_probs update_player (d, r) =
                  rbind (external_cfr fuel M
                           (get_next_game_state (game M) game_state (actions ! j))
                           (reach_probs[player := reach_probs ! player * strategy ! j])
                           update_player (snd (get_infoset d info_key), snd (random_random M r)))
                    (\<lambda>(v, s'). Some (Inr (transition_sign M game_state (actions ! j) * v,
                                           s')))"
      using e1 j(1) by (simp add: index_of_distinct)
    from j e1 e2 show ?thesis by blast
  qed
  from eq two three four show ?thesis by blast
qed

theorem external_cfr_samples_one_action_witness:
  "\<not> gs_terminal (kuhn_deal [[1], [0]])
   \<and> 2 \<le> length (get_possible_actions (game duel) (kuhn_deal [[1], [0]]))
   \<and> gs_player (kuhn_deal [[1], [0]]) \<noteq> 1
   \<and> gs_player (kuhn_deal [[1], [0]]) < length [1, 1 :: real]
   \<and> regret_matching \<lparr>cumulative_regrets = [1, 3], strategy_sum = [0, 0]\<rparr> = [1 / 4, 3 / 4]
   \<and> random_random duel 1 = (3 / 4, 2)
   \<and> map_option (map_sum id (\<lambda>(v, (d', r')). (v, d' (0, {1}, [], 2), d' (1, {0}, [1], 2), r')))
        (external_cfr (Suc (Suc (Suc 0))) duel (kuhn_deal [[1], [0]]) [1, 1] 1
           (Map.empty((0, {1}, [], 2) \<mapsto>
              \<lparr>cumulative_regrets = [1, 3], strategy_sum = [0, 0]\<rparr>), 1))
       = Some (Inr (3 / 2,
           Some \<lparr>cumulative_regrets = [1, 3], strategy_sum = [0, 0]\<rparr>,
           Some \<lparr>cumulative_regrets = [3 / 8, - 3 / 8], strategy_sum = [1 / 2, 1 / 2]\<rparr>,
           2))"
proof -
  have h1: "\<not> gs_terminal (kuhn_deal [[1], [0]])" by (simp add: kuhn_defs)
  have h2: "2 \<le> length (get_possible_actions (game duel) (kuhn_deal [[1], [0]]))"
    by (simp add: duel_defs)
  have h3: "gs_player (kuhn_deal [[1], [0]]) \<noteq> 1" by (simp add: kuhn_defs)
  have h4: "gs_player (kuhn_deal [[1], [0]]) < length [1, 1 :: real]" by (simp add: kuhn_defs)
  have h5: "regret_matching \<lparr>cumulative_regrets = [1, 3], strategy_sum = [0, 0]\<rparr> = [1 / 4, 3 / 4]"
    by (simp add: regret_matching_def normalize_def)
  have h6: "random_random duel 1 = (3 / 4, 2)" by (simp add: duel_defs)
  note eq = conjunct1 [OF external_cfr_samples_one_action [OF h1 h2 h3 h4,
                where fuel = "Suc (Suc 0)"
                and d = "Map.empty((0, {1}, [], 2) \<mapsto>
                           \<lparr>cumulative_regrets = [1, 3], strategy_sum = [0, 0]\<rparr>)"
                and r = 1]]
  have "map_option (map_sum id (\<lambda>(v, (d', r')). (v, d' (0, {1}, [], 2), d' (1, {0}, [1], 2), r')))
        (external_cfr (Suc (Suc (Suc 0))) duel (kuhn_deal [[1], [0]]) [1, 1] 1
           (Map.empty((0, {1}, [], 2) \<mapsto>
              \<lparr>cumulative_regrets = [1, 3], strategy_sum = [0, 0]\<rparr>), 1))
       = Some (Inr (3 / 2,
           Some \<lparr>cumulative_regrets = [1, 3], strategy_sum = [0, 0]\<rparr>,
           Some \<lparr>cumulative_regrets = [3 / 8, - 3 / 8], strategy_sum = [1 / 2, 1 / 2]\<rparr>,
           2))"
    unfolding eq
    by (simp add: model_defs duel_defs Let_def entry_of_def transition_sign_def)
  with h1 h2 h3 h4 h5 h6 show ?thesis by blast
qed

section \<open>Iterations of chance-sampled training\<close>

lemma train_chance_loop_run_calls:
  "train_chance_loop fuel M k util s =
     rbind (run_calls
              (\<lambda>(i :: unit) s.
                 rbind (chance_cfr fuel M (fst (sample_new_game (game M) (snd s))) [1, 1] (fst s))
                   (\<lambda>(v, d'). Some (Inr (v, (d', snd (sample_new_game (game M) (snd s)))))))
              (replicate k ()) s)
       (\<lambda>(vs, s'). Some (Inr (util + sum_list vs, s')))"
proof (induction k arbitrary: util s)
  case 0
  show ?case by simp
next
  case (Suc k)
  show ?case
    by (simp add: Suc.IH rbind_def add.assoc split_beta Let_def
             split: option.split sum.split)
qed

lemma train_chance_traversals:
  assumes "0 < num_iterations"
  shows "train_chance fuel M num_iterations s =
     rbind (run_calls
              (\<lambda>(i :: unit) s.
                 rbind (chance_cfr fuel M (fst (sample_new_game (game M) (snd s))) [1, 1] (fst s))
                   (\<lambda>(v, d'). Some (Inr (v, (d', snd (sample_new_game (game M) (snd s)))))))
              (replicate (nat num_iterations) ()) s)
       (\<lambda>(vs, s'). Some (Inr (sum_list vs / real_of_int num_iterations, s')))"
  using assms
  by (simp add: train_chance_def train_chance_loop_run_calls rbind_def split_beta
           split: option.split sum.split)

text \<open>
  C4. An iteration of \<open>train_chance\<close> is one traversal with \<open>chance_cfr\<close>, from a
  freshly sampled game with reach probabilities \<open>[1, 1]\<close>, on the dictionary the
  previous iteration left; the traversal has no update player. At a non-terminal node of
  \<open>chance_cfr\<close> with two or more actions, whichever of the two players acts there
  (so the infosets of both players are updated in the same iteration), with two reach
  probabilities and an infoset that has one regret and one strategy sum per action:
  \<^item> the strategy sums of the infoset are increased by \<open>reach_probs[player]\<close> times the
    regret-matching strategy;
  \<^item> there is one recursive call per action, in the order of the actions, on the action's
    next state, with the node's reach probabilities in which only the acting player's
    entry is multiplied by \<open>strategy[a]\<close> (\<open>child_calls\<close>); each call starts from the
    dictionary the previous one returned;
  \<^item> the counterfactual value of an action is the value of its call times the value of
    \<open>payoff\<close> at that point of the loop, and the node value is the sum of the
    counterfactual values times the strategy;
  \<^item> the regrets of the infoset, as the recursive calls left it, are increased by
    \<open>reach_probs[opponent] * (counterfactual_values[a] - node_value)\<close>.
  The node raises or does not return exactly when one of the recursive calls does. In the
  game \<open>duel\<close> one iteration updates the infoset of the first player at the root and
  the infoset of the second player after the raise.
\<close>

theorem chance_cfr_node_update:
  fixes M :: "('c, 'h, 'a, 'ah, 'r) mccfr"
  assumes "\<not> gs_terminal game_state"
    and "2 \<le> length (get_possible_actions (game M) game_state)"
    and "length reach_probs = 2"
    and "gs_player game_state < 2"
    and "length (cumulative_regrets (entry_of d (get_info_key M game_state)))
           = length (get_possible_actions (game M) game_state)"
    and "length (strategy_sum (entry_of d (get_info_key M game_state)))
           = length (get_possible_actions (game M) game_state)"
  defines "actions \<equiv> get_possible_actions (game M) game_state"
    and "player \<equiv> gs_player game_state"
    and "info_key \<equiv> get_info_key M game_state"
  defines "strategy \<equiv> regret_matching (entry_of d info_key)"
    and "payoffs \<equiv> loop_payoffs M game_state actions (- 1)"
  defines "node_value \<equiv> (\<lambda>vs. \<Sum>a\<leftarrow>[0..<length actions]. payoffs ! a * vs ! a * strategy ! a)"
  shows "chance_cfr (Suc fuel) M game_state reach_probs d =
     rbind (run_calls (\<lambda>(g, p). chance_cfr fuel M g p)
              (child_calls M game_state reach_probs strategy 0 actions)
              ((snd (get_infoset d info_key))
                 (info_key \<mapsto> (entry_of d info_key)\<lparr>strategy_sum :=
                    map (\<lambda>a. strategy_sum (entry_of d info_key) ! a
                               + reach_probs ! player * strategy ! a)
                        [0..<length actions]\<rparr>)))
       (\<lambda>(vs, d3).
          Some (Inr (node_value vs,
            d3(info_key \<mapsto> (entry_of d3 info_key)\<lparr>cumulative_regrets :=
                 map (\<lambda>a. cumulative_regrets (entry_of d3 info_key) ! a
                            + reach_probs ! ((player + 1) mod 2)
                                * (payoffs ! a * vs ! a - node_value vs))
                     [0..<length actions]\<rparr>))))
   \<and> (0 < num_iterations \<longrightarrow>
        train_chance depth M num_iterations s =
          rbind (run_calls
                   (\<lambda>(i :: unit) s.
                      rbind (chance_cfr depth M (fst (sample_new_game (game M) (snd s))) [1, 1]
                               (fst s))
                        (\<lambda>(v, d'). Some (Inr (v, (d', snd (sample_new_game (game M) (snd s)))))))
                   (replicate (nat num_iterations) ()) s)
            (\<lambda>(vs, s'). Some (Inr (sum_list vs / real_of_int num_iterations, s'))))"
proof -
  note node = chance_cfr_multi_action_node[OF assms(1-6), of fuel,
                folded actions_def player_def info_key_def,
                folded strategy_def, folded payoffs_def]
  show ?thesis
    unfolding node_value_def
    using node train_chance_traversals[of num_iterations depth M s] by blast
qed

theorem chance_cfr_node_update_witness:
  "\<not> gs_terminal (kuhn_deal [[1], [0]])
   \<and> 2 \<le> length (get_possible_actions (game duel) (kuhn_deal [[1], [0]]))
   \<and> length [1, 1 :: real] = 2
   \<and> gs_player (kuhn_deal [[1], [0]]) < 2
   \<and> length (cumulative_regrets (entry_of Map.empty (get_info_key duel (kuhn_deal [[1], [0]]))))
       = length (get_possible_actions (game duel) (kuhn_deal [[1], [0]]))
   \<and> length (strategy_sum (entry_of Map.empty (get_info_key duel (kuhn_deal [[1], [0]]))))
       = length (get_possible_actions (game duel) (kuhn_deal [[1], [0]]))
   \<and> (0 :: int) < 1
   \<and> map_option (map_sum id (\<lambda>(v, (d', r')). (v, d' (0, {1}, [], 2), d' (1, {0}, [1], 2), r')))
        (train_chance (Suc (Suc (Suc 0))) duel 1 (Map.empty, 0))
       = Some (Inr (5 / 4,
           Some \<lparr>cumulative_regrets = [- 1 / 4, 1 / 4], strategy_sum = [1 / 2, 1 / 2]\<rparr>,
           Some \<lparr>cumulative_regrets = [1 / 4, - 1 / 4], strategy_sum = [1 / 2, 1 / 2]\<rparr>,
           1))"
proof -
  have h1: "\<not> gs_terminal (kuhn_deal [[1], [0]])" by (simp add: kuhn_defs)
  have h2: "2 \<le> length (get_possible_actions (game duel) (kuhn_deal [[1], [0]]))"
    by (simp add: duel_defs)
  have h3: "length [1, 1 :: real] = 2" by simp
  have h4: "gs_player (kuhn_deal [[1], [0]]) < 2" by (simp add: kuhn_defs)
  have h5: "length (cumulative_regrets (entry_of Map.empty (get_info_key duel (kuhn_deal [[1], [0]]))))
       = length (get_possible_actions (game duel) (kuhn_deal [[1], [0]]))"
    by (simp add: duel_defs entry_of_def get_info_key_def Infoset_init_def)
  have h6: "length (strategy_sum (entry_of Map.empty (get_info_key duel (kuhn_deal [[1], [0]]))))
       = length (get_possible_actions (game duel) (kuhn_deal [[1], [0]]))"
    by (simp add: duel_defs entry_of_def get_info_key_def Infoset_init_def)
  have h7: "(0 :: int) < 1" by simp
  note both = chance_cfr_node_update [OF h1 h2 h3 h4 h5 h6, where fuel = "Suc (Suc 0)"
                and depth = "Suc (Suc (Suc 0))" and num_iterations = 1 and s = "(Map.empty, 0)"]
  note train = mp [OF conjunct2 [OF both] h7]
  have "map_option (map_sum id (\<lambda>(v, (d', r')). (v, d' (0, {1}, [], 2), d' (1, {0}, [1], 2), r')))
        (train_chance (Suc (Suc (Suc 0))) duel 1 (Map.empty, 0))
       = Some (Inr (5 / 4,
           Some \<lparr>cumulative_regrets = [- 1 / 4, 1 / 4], strategy_sum = [1 / 2, 1 / 2]\<rparr>,
           Some \<lparr>cumulative_regrets = [1 / 4, - 1 / 4], strategy_sum = [1 / 2, 1 / 2]\<rparr>,
           1))"
    unfolding train
    by (simp add: model_defs duel_defs Let_def)
  with h1 h2 h3 h4 h5 h6 h7 show ?thesis by blast
qed

end
